theory Spec2Isabelle
  imports Main "HOL-Library.Signed_Division"
begin

section \<open>Data model of the tennis tracker\<close>

text \<open>
  The embedding follows \<^verbatim>\<open>tennistracker.cpp\<close>. C++ \<^verbatim>\<open>int\<close> counters are
  mathematical integers here: every counter starts at 0 and grows by one per point or
  game, so the 32-bit range is left only after more than \<open>2^31\<close> points. Players are the
  integers 0 and 1 as in the source, which tests them with \<^verbatim>\<open>==0\<close>. The index of the
  current set is a natural number, since the source only ever assigns it
  \<^verbatim>\<open>sets.size()-1\<close> after a \<^verbatim>\<open>push_back\<close>. Console output is not modelled;
  console input is a list of the integers typed, consumed from the head.
\<close>

datatype ServeType = SERVE_NONE | SERVE_FIRST | SERVE_SECOND

datatype DecidingSetType = DECIDING_REGULAR | DECIDING_TB10

record FormatConfig =
  games_to_win_set :: int
  tiebreak_at_games :: int
  set_tiebreak_points :: int
  deciding :: DecidingSetType
  deciding_tb_points :: int

record PlayerStats =
  first_serves_attempted :: int
  first_serves_in :: int
  second_serves_attempted :: int
  second_serves_in :: int
  aces_first :: int
  aces_second :: int
  service_winners_first :: int
  service_winners_second :: int
  double_faults :: int
  points_won_on_first_serve :: int
  points_won_on_second_serve :: int
  return_points_won_vs_first :: int
  return_points_won_vs_second :: int
  return_winners :: int
  return_unforced_errors :: int
  return_forced_errors :: int
  rally_winners :: int
  unforced_errors :: int
  forced_errors_drawn :: int
  net_points_won :: int
  net_points_total :: int
  break_points_won :: int
  break_points_total :: int
  points_won :: int
  points_played :: int

record PointLogEntry =
  set_index :: nat
  game_index :: int
  in_tiebreak :: bool
  tiebreak_point_number :: int
  point_number_in_game :: int
  server_player :: int
  serve_type :: ServeType
  event_chain :: string
  point_winner :: int
  was_break_point :: bool
  was_game_point :: bool
  was_set_point :: bool
  was_match_point :: bool

text \<open>
  The two tiebreak counters of \<^verbatim>\<open>SetScore\<close> carry the prefix \<open>set_\<close> here, because
  \<^verbatim>\<open>MatchState\<close> has fields of the same names.
\<close>

record SetScore =
  games_player1 :: int
  games_player2 :: int
  set_finished :: bool
  set_tiebreak_played :: bool
  set_tb_points_p1 :: int
  set_tb_points_p2 :: int

record MatchState =
  player1_name :: string
  player2_name :: string
  location :: string
  format :: FormatConfig
  best_of_sets :: int
  sets_to_win :: int
  sets :: "SetScore list"
  per_set_stats_p1 :: "PlayerStats list"
  per_set_stats_p2 :: "PlayerStats list"
  current_set_index :: nat
  game_points_p1 :: int
  game_points_p2 :: int
  in_set_tiebreak :: bool
  in_match_tiebreak10 :: bool
  tb_points_p1 :: int
  tb_points_p2 :: int
  tb_start_server :: int
  current_server :: int
  sets_won_p1 :: int
  sets_won_p2 :: int
  match_stats_p1 :: PlayerStats
  match_stats_p2 :: PlayerStats
  current_point_serve :: ServeType
  log_entries :: "PointLogEntry list"

text \<open>The values the default member initialisers of the structs give.\<close>

definition PlayerStats0 :: PlayerStats where
  "PlayerStats0 = \<lparr>first_serves_attempted = 0, first_serves_in = 0,
     second_serves_attempted = 0, second_serves_in = 0, aces_first = 0, aces_second = 0,
     service_winners_first = 0, service_winners_second = 0, double_faults = 0,
     points_won_on_first_serve = 0, points_won_on_second_serve = 0,
     return_points_won_vs_first = 0, return_points_won_vs_second = 0,
     return_winners = 0, return_unforced_errors = 0, return_forced_errors = 0,
     rally_winners = 0, unforced_errors = 0, forced_errors_drawn = 0,
     net_points_won = 0, net_points_total = 0, break_points_won = 0,
     break_points_total = 0, points_won = 0, points_played = 0\<rparr>"

definition SetScore0 :: SetScore where
  "SetScore0 = \<lparr>games_player1 = 0, games_player2 = 0, set_finished = False,
     set_tiebreak_played = False, set_tb_points_p1 = 0, set_tb_points_p2 = 0\<rparr>"

definition PointLogEntry0 :: PointLogEntry where
  "PointLogEntry0 = \<lparr>set_index = 0, game_index = 0, in_tiebreak = False,
     tiebreak_point_number = 0, point_number_in_game = 0, server_player = 0,
     serve_type = SERVE_NONE, event_chain = [], point_winner = 0,
     was_break_point = False, was_game_point = False, was_set_point = False,
     was_match_point = False\<rparr>"

text \<open>
  A default-constructed \<^verbatim>\<open>MatchState\<close>. The source leaves \<^verbatim>\<open>format\<close>
  uninitialised until \<^verbatim>\<open>main\<close> assigns it, so it is a parameter.
\<close>

definition MatchState0 :: "FormatConfig \<Rightarrow> MatchState" where
  "MatchState0 fc = \<lparr>player1_name = [], player2_name = [], location = [],
     format = fc, best_of_sets = 3, sets_to_win = 2, sets = [],
     per_set_stats_p1 = [], per_set_stats_p2 = [], current_set_index = 0,
     game_points_p1 = 0, game_points_p2 = 0, in_set_tiebreak = False,
     in_match_tiebreak10 = False, tb_points_p1 = 0, tb_points_p2 = 0,
     tb_start_server = 0, current_server = 0, sets_won_p1 = 0, sets_won_p2 = 0,
     match_stats_p1 = PlayerStats0, match_stats_p2 = PlayerStats0,
     current_point_serve = SERVE_NONE, log_entries = []\<rparr>"

section \<open>Undo history\<close>

text \<open>
  The global \<^verbatim>\<open>history_stack\<close> is passed explicitly; its top (\<^verbatim>\<open>back()\<close>) is the
  head of the list. Copying a \<^verbatim>\<open>MatchState\<close> copies its vectors and strings, which
  is what a HOL value is.
\<close>

definition push_history :: "MatchState \<Rightarrow> MatchState list \<Rightarrow> MatchState list" where
  "push_history st hist = st # hist"

fun pop_history :: "MatchState \<Rightarrow> MatchState list \<Rightarrow> bool \<times> MatchState \<times> MatchState list" where
  "pop_history st [] = (False, st, [])"
| "pop_history st (snapshot # hist) = (True, snapshot, hist)"

section \<open>Tiebreak server\<close>

text \<open>C++ \<^verbatim>\<open>%\<close> truncates towards zero: \<open>smod\<close>.\<close>

definition compute_tiebreak_server :: "MatchState \<Rightarrow> MatchState" where
  "compute_tiebreak_server st =
     (let total = tb_points_p1 st + tb_points_p2 st;
          mod4 = total smod 4;
          start = tb_start_server st;
          opp = (if start = 0 then 1 else 0)
      in if mod4 = 0 \<or> mod4 = 3 then st\<lparr>current_server := start\<rparr>
         else st\<lparr>current_server := opp\<rparr>)"

section \<open>Scoring helpers\<close>

definition is_game_point_for :: "int \<Rightarrow> int \<Rightarrow> bool" where
  "is_game_point_for gp_winner gp_loser =
     (if gp_winner \<le> 2 then False
      else if gp_winner = 3 \<and> gp_loser \<le> 2 then True
      else if gp_winner \<ge> 3 \<and> gp_loser \<ge> 3 \<and> gp_winner = gp_loser + 1 then True
      else False)"

definition is_break_point_if_receiver_wins :: "MatchState \<Rightarrow> bool" where
  "is_break_point_if_receiver_wins st =
     (let receiver = (if current_server st = 0 then 1 else 0 :: int);
          gp_receiver = (if receiver = 0 then game_points_p1 st else game_points_p2 st);
          gp_server = (if receiver = 0 then game_points_p2 st else game_points_p1 st)
      in is_game_point_for gp_receiver gp_server)"

definition is_set_point_if_player_wins :: "MatchState \<Rightarrow> int \<Rightarrow> bool" where
  "is_set_point_if_player_wins st player =
     (if in_set_tiebreak st \<or> in_match_tiebreak10 st then False
      else let ss = sets st ! current_set_index st;
               gp_you = (if player = 0 then game_points_p1 st else game_points_p2 st);
               gp_opp = (if player = 0 then game_points_p2 st else game_points_p1 st)
           in if \<not> is_game_point_for gp_you gp_opp then False
              else let g_you = (if player = 0 then games_player1 ss else games_player2 ss);
                       g_opp = (if player = 0 then games_player2 ss else games_player1 ss);
                       gy = g_you + 1
                   in gy \<ge> games_to_win_set (format st) \<and> gy - g_opp \<ge> 2)"

definition is_match_point_if_player_wins :: "MatchState \<Rightarrow> int \<Rightarrow> bool" where
  "is_match_point_if_player_wins st player =
     (if in_set_tiebreak st \<or> in_match_tiebreak10 st then False
      else if \<not> is_set_point_if_player_wins st player then False
      else let sets_have = (if player = 0 then sets_won_p1 st else sets_won_p2 st)
           in sets_have = sets_to_win st - 1)"

section \<open>References to statistics blocks\<close>

text \<open>
  The source updates statistics through \<^verbatim>\<open>PlayerStats&\<close> references into the match
  state: the two match totals and the entries of the two per-set vectors. A reference is
  a value of \<open>stats_ref\<close>; \<open>modify\<close> writes through it. An index outside the vector is
  undefined behaviour in C++; the list update leaves the list unchanged there.
\<close>

datatype stats_ref = Match_p1 | Match_p2 | Set_p1 nat | Set_p2 nat

fun deref :: "MatchState \<Rightarrow> stats_ref \<Rightarrow> PlayerStats" where
  "deref st Match_p1 = match_stats_p1 st"
| "deref st Match_p2 = match_stats_p2 st"
| "deref st (Set_p1 i) = per_set_stats_p1 st ! i"
| "deref st (Set_p2 i) = per_set_stats_p2 st ! i"

fun modify :: "stats_ref \<Rightarrow> (PlayerStats \<Rightarrow> PlayerStats) \<Rightarrow> MatchState \<Rightarrow> MatchState" where
  "modify Match_p1 f st = st\<lparr>match_stats_p1 := f (match_stats_p1 st)\<rparr>"
| "modify Match_p2 f st = st\<lparr>match_stats_p2 := f (match_stats_p2 st)\<rparr>"
| "modify (Set_p1 i) f st =
     st\<lparr>per_set_stats_p1 := (per_set_stats_p1 st)[i := f (per_set_stats_p1 st ! i)]\<rparr>"
| "modify (Set_p2 i) f st =
     st\<lparr>per_set_stats_p2 := (per_set_stats_p2 st)[i := f (per_set_stats_p2 st ! i)]\<rparr>"

text \<open>\<^verbatim>\<open>(p==0 ? st.match_stats_p1 : st.match_stats_p2)\<close>\<close>

definition match_ref :: "int \<Rightarrow> stats_ref" where
  "match_ref p = (if p = 0 then Match_p1 else Match_p2)"

text \<open>\<^verbatim>\<open>(p==0 ? st.per_set_stats_p1[st.current_set_index] : st.per_set_stats_p2[...])\<close>\<close>

definition set_ref :: "MatchState \<Rightarrow> int \<Rightarrow> stats_ref" where
  "set_ref st p = (if p = 0 then Set_p1 (current_set_index st) else Set_p2 (current_set_index st))"

text \<open>\<^verbatim>\<open>x++\<close> on a counter.\<close>

definition incr :: "int \<Rightarrow> int" where
  "incr n = n + 1"

definition add_stats_point_ownership :: "stats_ref \<Rightarrow> stats_ref \<Rightarrow> MatchState \<Rightarrow> MatchState" where
  "add_stats_point_ownership winner loser st =
     modify loser (points_played_update incr)
       (modify winner (points_played_update incr)
         (modify winner (points_won_update incr) st))"

definition add_stats_net :: "stats_ref \<Rightarrow> bool \<Rightarrow> MatchState \<Rightarrow> MatchState" where
  "add_stats_net who won st =
     (let st1 = modify who (net_points_total_update incr) st
      in if won then modify who (net_points_won_update incr) st1 else st1)"

section \<open>State transitions\<close>

definition start_new_set :: "MatchState \<Rightarrow> MatchState" where
  "start_new_set st =
     (let st1 = st\<lparr>sets := sets st @ [SetScore0],
                   per_set_stats_p1 := per_set_stats_p1 st @ [PlayerStats0],
                   per_set_stats_p2 := per_set_stats_p2 st @ [PlayerStats0]\<rparr>
      in st1\<lparr>current_set_index := length (sets st1) - 1,
             game_points_p1 := 0, game_points_p2 := 0,
             in_set_tiebreak := False,
             tb_points_p1 := 0, tb_points_p2 := 0\<rparr>)"

definition award_game :: "MatchState \<Rightarrow> int \<Rightarrow> MatchState" where
  "award_game st player =
     (let i = current_set_index st;
          ss = sets st ! i;
          ss' = (if player = 0 then ss\<lparr>games_player1 := games_player1 ss + 1\<rparr>
                 else ss\<lparr>games_player2 := games_player2 ss + 1\<rparr>)
      in st\<lparr>sets := (sets st)[i := ss'],
            current_server := (if current_server st = 0 then 1 else 0),
            game_points_p1 := 0, game_points_p2 := 0\<rparr>)"

definition check_enter_set_tiebreak :: "MatchState \<Rightarrow> bool" where
  "check_enter_set_tiebreak st =
     (let ss = sets st ! current_set_index st
      in games_player1 ss = tiebreak_at_games (format st) \<and>
         games_player2 ss = tiebreak_at_games (format st))"

text \<open>
  \<^verbatim>\<open>set_is_won_now\<close> and \<^verbatim>\<open>match_tiebreak10_won\<close> return a flag and write the winner
  through a reference only when the flag is true: \<open>Some winner\<close> is true, \<open>None\<close> false.
\<close>

definition set_is_won_now :: "MatchState \<Rightarrow> int option" where
  "set_is_won_now st =
     (let ss = sets st ! current_set_index st
      in if in_set_tiebreak st then
           (if (tb_points_p1 st \<ge> set_tiebreak_points (format st) \<or>
                tb_points_p2 st \<ge> set_tiebreak_points (format st))
               \<and> \<bar>tb_points_p1 st - tb_points_p2 st\<bar> \<ge> 2
            then Some (if tb_points_p1 st > tb_points_p2 st then 0 else 1)
            else None)
         else let g1 = games_player1 ss; g2 = games_player2 ss
              in if (g1 \<ge> games_to_win_set (format st) \<or> g2 \<ge> games_to_win_set (format st))
                    \<and> \<bar>g1 - g2\<bar> \<ge> 2
                 then Some (if g1 > g2 then 0 else 1)
                 else None)"

definition close_set_and_prepare_next :: "MatchState \<Rightarrow> int \<Rightarrow> MatchState" where
  "close_set_and_prepare_next st set_winner =
     (let i = current_set_index st;
          st1 = st\<lparr>sets := (sets st)[i := (sets st ! i)\<lparr>set_finished := True\<rparr>]\<rparr>;
          st2 = (if set_winner = 0 then st1\<lparr>sets_won_p1 := sets_won_p1 st1 + 1\<rparr>
                 else st1\<lparr>sets_won_p2 := sets_won_p2 st1 + 1\<rparr>);
          match_over = (sets_won_p1 st2 = sets_to_win st2 \<or> sets_won_p2 st2 = sets_to_win st2)
      in if \<not> match_over then
           (if length (sets st2) = 2 \<and> deciding (format st2) = DECIDING_TB10 \<and>
               sets_won_p1 st2 = 1 \<and> sets_won_p2 st2 = 1
            then st2\<lparr>in_match_tiebreak10 := True, tb_points_p1 := 0, tb_points_p2 := 0\<rparr>
            else start_new_set st2)
         else st2)"

definition match_tiebreak10_won :: "MatchState \<Rightarrow> int option" where
  "match_tiebreak10_won st =
     (if \<not> in_match_tiebreak10 st then None
      else if (tb_points_p1 st \<ge> deciding_tb_points (format st) \<or>
               tb_points_p2 st \<ge> deciding_tb_points (format st))
              \<and> \<bar>tb_points_p1 st - tb_points_p2 st\<bar> \<ge> 2
      then Some (if tb_points_p1 st > tb_points_p2 st then 0 else 1)
      else None)"

definition match_is_over_now :: "MatchState \<Rightarrow> bool" where
  "match_is_over_now st = (sets_won_p1 st = sets_to_win st \<or> sets_won_p2 st = sets_to_win st)"

section \<open>Statistics updates\<close>

definition add_serve_attempt :: "MatchState \<Rightarrow> int \<Rightarrow> ServeType \<Rightarrow> bool \<Rightarrow> MatchState" where
  "add_serve_attempt st server t in_or_fault =
     (let ms = match_ref server; ps = set_ref st server
      in if t = SERVE_FIRST then
           (let st1 = modify ps (first_serves_attempted_update incr)
                        (modify ms (first_serves_attempted_update incr) st)
            in if in_or_fault
               then modify ps (first_serves_in_update incr)
                      (modify ms (first_serves_in_update incr) st1)
               else st1)
         else if t = SERVE_SECOND then
           (let st1 = modify ps (second_serves_attempted_update incr)
                        (modify ms (second_serves_attempted_update incr) st)
            in if in_or_fault
               then modify ps (second_serves_in_update incr)
                      (modify ms (second_serves_in_update incr) st1)
               else st1)
         else st)"

definition add_double_fault :: "MatchState \<Rightarrow> int \<Rightarrow> MatchState" where
  "add_double_fault st server =
     (let ms = match_ref server; ps = set_ref st server
      in modify ps (double_faults_update incr) (modify ms (double_faults_update incr) st))"

definition add_ace :: "MatchState \<Rightarrow> int \<Rightarrow> ServeType \<Rightarrow> MatchState" where
  "add_ace st server t =
     (let ms = match_ref server; ps = set_ref st server
      in if t = SERVE_FIRST
         then modify ps (aces_first_update incr) (modify ms (aces_first_update incr) st)
         else if t = SERVE_SECOND
         then modify ps (aces_second_update incr) (modify ms (aces_second_update incr) st)
         else st)"

definition add_service_winner :: "MatchState \<Rightarrow> int \<Rightarrow> ServeType \<Rightarrow> MatchState" where
  "add_service_winner st server t =
     (let ms = match_ref server; ps = set_ref st server
      in if t = SERVE_FIRST
         then modify ps (service_winners_first_update incr)
                (modify ms (service_winners_first_update incr) st)
         else if t = SERVE_SECOND
         then modify ps (service_winners_second_update incr)
                (modify ms (service_winners_second_update incr) st)
         else st)"

definition add_return_outcome :: "MatchState \<Rightarrow> int \<Rightarrow> string \<Rightarrow> MatchState" where
  "add_return_outcome st returner kind =
     (let ms = match_ref returner; ps = set_ref st returner
      in if kind = ''winner''
         then modify ps (return_winners_update incr) (modify ms (return_winners_update incr) st)
         else if kind = ''ue''
         then modify ps (return_unforced_errors_update incr)
                (modify ms (return_unforced_errors_update incr) st)
         else if kind = ''fe''
         then modify ps (return_forced_errors_update incr)
                (modify ms (return_forced_errors_update incr) st)
         else st)"

definition add_rally_outcome :: "MatchState \<Rightarrow> int \<Rightarrow> string \<Rightarrow> MatchState" where
  "add_rally_outcome st player kind =
     (let ms = match_ref player; ps = set_ref st player
      in if kind = ''winner''
         then modify ps (rally_winners_update incr) (modify ms (rally_winners_update incr) st)
         else if kind = ''ue''
         then modify ps (unforced_errors_update incr) (modify ms (unforced_errors_update incr) st)
         else if kind = ''fedrawn''
         then modify ps (forced_errors_drawn_update incr)
                (modify ms (forced_errors_drawn_update incr) st)
         else st)"

definition add_return_points_won :: "MatchState \<Rightarrow> int \<Rightarrow> ServeType \<Rightarrow> MatchState" where
  "add_return_points_won st returner t =
     (let ms = match_ref returner; ps = set_ref st returner
      in if t = SERVE_FIRST
         then modify ps (return_points_won_vs_first_update incr)
                (modify ms (return_points_won_vs_first_update incr) st)
         else if t = SERVE_SECOND
         then modify ps (return_points_won_vs_second_update incr)
                (modify ms (return_points_won_vs_second_update incr) st)
         else st)"

definition add_server_point_won :: "MatchState \<Rightarrow> int \<Rightarrow> ServeType \<Rightarrow> MatchState" where
  "add_server_point_won st server t =
     (let ms = match_ref server; ps = set_ref st server
      in if t = SERVE_FIRST
         then modify ps (points_won_on_first_serve_update incr)
                (modify ms (points_won_on_first_serve_update incr) st)
         else if t = SERVE_SECOND
         then modify ps (points_won_on_second_serve_update incr)
                (modify ms (points_won_on_second_serve_update incr) st)
         else st)"

definition maybe_count_break_point :: "MatchState \<Rightarrow> bool \<Rightarrow> bool \<Rightarrow> MatchState" where
  "maybe_count_break_point st was_bp returner_won =
     (if \<not> was_bp then st
      else let returner_player = (if current_server st = 0 then 1 else 0 :: int);
               ms = match_ref returner_player; ps = set_ref st returner_player;
               st1 = modify ps (break_points_total_update incr)
                       (modify ms (break_points_total_update incr) st)
           in if returner_won
              then modify ps (break_points_won_update incr)
                     (modify ms (break_points_won_update incr) st1)
              else st1)"

section \<open>Format presets\<close>

definition get_format_by_choice :: "int \<Rightarrow> FormatConfig" where
  "get_format_by_choice c =
     (if c = 1 then \<lparr>games_to_win_set = 6, tiebreak_at_games = 6, set_tiebreak_points = 7,
                      deciding = DECIDING_REGULAR, deciding_tb_points = 10\<rparr>
      else if c = 2 then \<lparr>games_to_win_set = 6, tiebreak_at_games = 6, set_tiebreak_points = 7,
                      deciding = DECIDING_TB10, deciding_tb_points = 10\<rparr>
      else \<lparr>games_to_win_set = 4, tiebreak_at_games = 4, set_tiebreak_points = 7,
             deciding = DECIDING_REGULAR, deciding_tb_points = 10\<rparr>)"

section \<open>Core point logic\<close>

definition give_point_regular :: "MatchState \<Rightarrow> int \<Rightarrow> MatchState" where
  "give_point_regular st winner_player =
     (let st1 = (if winner_player = 0 then st\<lparr>game_points_p1 := game_points_p1 st + 1\<rparr>
                 else st\<lparr>game_points_p2 := game_points_p2 st + 1\<rparr>);
          p1 = game_points_p1 st1; p2 = game_points_p2 st1
      in if p1 \<ge> 4 \<or> p2 \<ge> 4 then
          (if \<bar>p1 - p2\<bar> \<ge> 2 then
           (let game_winner = (if p1 > p2 then 0 else 1);
                st2 = award_game st1 game_winner;
                st3 = (if \<not> in_match_tiebreak10 st2 \<and> check_enter_set_tiebreak st2
                       then let i = current_set_index st2
                            in st2\<lparr>in_set_tiebreak := True,
                                   sets := (sets st2)[i := (sets st2 ! i)\<lparr>set_tiebreak_played := True\<rparr>],
                                   tb_points_p1 := 0, tb_points_p2 := 0,
                                   tb_start_server := current_server st2\<rparr>
                       else st2)
            in if \<not> in_set_tiebreak st3 then
                 (case set_is_won_now st3 of
                    Some set_winner \<Rightarrow> close_set_and_prepare_next st3 set_winner
                  | None \<Rightarrow> st3)
               else st3)
           else st1)
         else st1)"

definition give_point_tiebreak :: "MatchState \<Rightarrow> int \<Rightarrow> bool \<Rightarrow> MatchState" where
  "give_point_tiebreak st winner_player is_set_tb =
     (let st1 = (if winner_player = 0 then st\<lparr>tb_points_p1 := tb_points_p1 st + 1\<rparr>
                 else st\<lparr>tb_points_p2 := tb_points_p2 st + 1\<rparr>)
      in if is_set_tb then
           (case set_is_won_now st1 of
              Some set_winner \<Rightarrow>
                (let i = current_set_index st1;
                     st2 = st1\<lparr>sets := (sets st1)[i := (sets st1 ! i)
                                  \<lparr>set_tb_points_p1 := tb_points_p1 st1,
                                   set_tb_points_p2 := tb_points_p2 st1\<rparr>],
                               in_set_tiebreak := False\<rparr>
                 in close_set_and_prepare_next st2 set_winner)
            | None \<Rightarrow> st1)
         else
           (case match_tiebreak10_won st1 of
              Some mw \<Rightarrow>
                (let st2 = (if mw = 0 then st1\<lparr>sets_won_p1 := sets_won_p1 st1 + 1\<rparr>
                            else st1\<lparr>sets_won_p2 := sets_won_p2 st1 + 1\<rparr>);
                     fin = SetScore0\<lparr>games_player1 := games_player1 (last (sets st2)),
                                     games_player2 := games_player2 (last (sets st2)),
                                     set_tiebreak_played := True,
                                     set_tb_points_p1 := tb_points_p1 st2,
                                     set_tb_points_p2 := tb_points_p2 st2\<rparr>
                 in st2\<lparr>sets := sets st2 @ [fin],
                        per_set_stats_p1 := per_set_stats_p1 st2 @ [PlayerStats0],
                        per_set_stats_p2 := per_set_stats_p2 st2 @ [PlayerStats0],
                        in_match_tiebreak10 := False\<rparr>)
            | None \<Rightarrow> st1))"

text \<open>
  The three-way dispatch that ends every branch of \<^verbatim>\<open>record_point_and_stats\<close>:
  \<^verbatim>\<open>if (st.in_set_tiebreak) give_point_tiebreak(st, w, true);
  else if (st.in_match_tiebreak10) give_point_tiebreak(st, w, false);
  else give_point_regular(st, w);\<close>
\<close>

definition give_point :: "MatchState \<Rightarrow> int \<Rightarrow> MatchState" where
  "give_point st w =
     (if in_set_tiebreak st then give_point_tiebreak st w True
      else if in_match_tiebreak10 st then give_point_tiebreak st w False
      else give_point_regular st w)"

section \<open>Menus that read input\<close>

text \<open>
  Every \<^verbatim>\<open>cin >> x\<close> takes the head of the input list. When the list is empty the
  extraction fails and leaves \<open>x\<close> indeterminate; what the source does with it is
  undefined (its menu loops typically spin on their "Invalid option" branch). The model
  gives \<open>None\<close>, no result, whenever a read finds the input empty.
\<close>

fun show_match_totals :: "int list \<Rightarrow> int list option" where
  "show_match_totals [] = None"
| "show_match_totals (c # inp) = Some inp"

fun show_by_set :: "MatchState \<Rightarrow> int list \<Rightarrow> int list option" where
  "show_by_set st [] = None"
| "show_by_set st (s # inp) =
     (if s < 1 \<or> s > int (length (sets st)) then Some inp
      else case inp of [] \<Rightarrow> None | c # inp' \<Rightarrow> Some inp')"

lemma show_match_totals_shorter: "show_match_totals inp = Some inp' \<Longrightarrow> length inp' < length inp"
  by (cases inp) auto

lemma show_by_set_shorter: "show_by_set st inp = Some inp' \<Longrightarrow> length inp' < length inp"
  by (cases inp) (auto split: if_splits list.splits)

text \<open>
  The loop \<^verbatim>\<open>while(!back){ print_stats_menu(); cin>>sm; ... }\<close>, which the admin menu
  and the main menu both run. \<^verbatim>\<open>show_point_by_point\<close> reads nothing.
\<close>

function stats_menu_loop :: "MatchState \<Rightarrow> int list \<Rightarrow> int list option" where
  "stats_menu_loop st [] = None"
| "stats_menu_loop st (sm # inp) =
     (if sm = 1 then
        (case show_match_totals inp of None \<Rightarrow> None | Some inp' \<Rightarrow> stats_menu_loop st inp')
      else if sm = 2 then
        (case show_by_set st inp of None \<Rightarrow> None | Some inp' \<Rightarrow> stats_menu_loop st inp')
      else if sm = 3 then stats_menu_loop st inp
      else Some inp)"
  by pat_completeness auto
termination
  by (relation "measure (\<lambda>(st, inp). length inp)")
     (auto dest: show_match_totals_shorter show_by_set_shorter)

lemma stats_menu_loop_shorter:
  "stats_menu_loop st inp = Some inp' \<Longrightarrow> length inp' < length inp"
proof (induction st inp rule: stats_menu_loop.induct)
  case (1 st)
  then show ?case by simp
next
  case (2 st sm inp)
  then show ?case
    by (fastforce split: if_splits option.splits
          dest: show_match_totals_shorter show_by_set_shorter)
qed

section \<open>Recording one point\<close>

text \<open>
  Which \<^verbatim>\<open>return\<close> of \<^verbatim>\<open>record_point_and_stats\<close> was taken: after a point was
  played and logged, after "Undo last point" in the admin menu, or after "End match"
  there. The C++ function returns \<^verbatim>\<open>void\<close>; the tag only names the exit.
\<close>

datatype point_exit = PointPlayed | AdminUndo | AdminEnd

text \<open>The six outcomes of the rally menu (the \<^verbatim>\<open>if (rv==1) ... else\<close> chain).\<close>

definition rally_choice :: "MatchState \<Rightarrow> int \<Rightarrow> int \<Rightarrow> int \<Rightarrow> (MatchState \<times> string \<times> int) option" where
  "rally_choice st server returner rv =
     (if rv = 1 then
        (let st1 = add_rally_outcome st server ''winner''
         in Some (add_server_point_won st1 server (current_point_serve st1),
                  ''Rally: server winner.'', server))
      else if rv = 2 then
        (let st1 = add_rally_outcome st returner ''winner''
         in Some (add_return_points_won st1 returner (current_point_serve st1),
                  ''Rally: returner winner.'', returner))
      else if rv = 3 then
        (let st1 = add_rally_outcome st server ''ue''
         in Some (add_return_points_won st1 returner (current_point_serve st1),
                  ''Rally: server UE.'', returner))
      else if rv = 4 then
        (let st1 = add_rally_outcome st returner ''ue''
         in Some (add_server_point_won st1 server (current_point_serve st1),
                  ''Rally: returner UE.'', server))
      else if rv = 5 then
        (let st1 = add_rally_outcome st returner ''fedrawn''
         in Some (add_return_points_won st1 returner (current_point_serve st1),
                  ''Rally: server FE (drawn by returner).'', returner))
      else if rv = 6 then
        (let st1 = add_rally_outcome st server ''fedrawn''
         in Some (add_server_point_won st1 server (current_point_serve st1),
                  ''Rally: returner FE (drawn by server).'', server))
      else None)"

text \<open>The rest of the rally branch, from \<^verbatim>\<open>PlayerStats& mw\<close> to \<^verbatim>\<open>return\<close>.\<close>

definition rally_finish ::
  "PointLogEntry \<Rightarrow> int \<Rightarrow> bool \<Rightarrow> bool \<Rightarrow> int \<Rightarrow> string \<Rightarrow> int \<Rightarrow> MatchState \<Rightarrow> MatchState" where
  "rally_finish entry returner was_bp net_mark net_player desc pw st =
     (let st1 = add_stats_point_ownership (match_ref pw)
                  (if pw = 0 then Match_p2 else Match_p1) st;
          st2 = (if net_mark then
                   (if net_player = 0
                    then add_stats_net (Set_p1 (current_set_index st1)) (pw = 0)
                           (add_stats_net Match_p1 (pw = 0) st1)
                    else add_stats_net (Set_p2 (current_set_index st1)) (pw = 1)
                           (add_stats_net Match_p2 (pw = 1) st1))
                 else st1);
          returner_won = (pw = returner);
          st3 = maybe_count_break_point st2 was_bp returner_won;
          e = entry\<lparr>event_chain := event_chain entry @ desc,
                     serve_type := current_point_serve st3,
                     point_winner := pw\<rparr>;
          st4 = st3\<lparr>log_entries := log_entries st3 @ [e]\<rparr>
      in give_point st4 pw)"

text \<open>
  The net-point prompt of the rally menu: \<^verbatim>\<open>cin>>netChoice\<close> has been read; when it
  is 2 the player at the net is read too. \<^verbatim>\<open>net_player\<close> starts as \<open>-1\<close>.
\<close>

definition read_net :: "int \<Rightarrow> int list \<Rightarrow> (int \<times> int list) option" where
  "read_net netChoice inp =
     (if netChoice = 2
      then (case inp of [] \<Rightarrow> None | np # inp' \<Rightarrow> Some (if np = 1 then 0 else 1, inp'))
      else Some (- 1, inp))"

lemma read_net_shorter: "read_net netChoice inp = Some (net_player, inp') \<Longrightarrow> length inp' \<le> length inp"
  by (auto simp: read_net_def split: if_splits list.splits)

function rally_loop ::
  "PointLogEntry \<Rightarrow> int \<Rightarrow> int \<Rightarrow> bool \<Rightarrow> int list \<Rightarrow> MatchState \<Rightarrow> (MatchState \<times> int list) option" where
  "rally_loop entry server returner was_bp [] st = None"
| "rally_loop entry server returner was_bp [rv] st = None"
| "rally_loop entry server returner was_bp (rv # netChoice # inp) st =
     (case read_net netChoice inp of
        None \<Rightarrow> None
      | Some (net_player, inp1) \<Rightarrow>
          (case rally_choice st server returner rv of
             None \<Rightarrow> rally_loop entry server returner was_bp inp1 st
           | Some (st1, desc, pw) \<Rightarrow>
               Some (rally_finish entry returner was_bp (netChoice = 2) net_player desc pw st1,
                     inp1)))"
  by pat_completeness auto
termination
  by (relation "measure (\<lambda>(entry, server, returner, was_bp, inp, st). length inp)")
     (auto dest: read_net_shorter)

text \<open>The three return outcomes that end the point, each from its first call to \<^verbatim>\<open>return\<close>.\<close>

definition return_winner :: "PointLogEntry \<Rightarrow> int \<Rightarrow> int \<Rightarrow> bool \<Rightarrow> MatchState \<Rightarrow> MatchState" where
  "return_winner entry server returner was_bp st =
     (let st1 = add_return_outcome st returner ''winner'';
          st2 = add_return_points_won st1 returner (current_point_serve st1);
          e1 = entry\<lparr>event_chain := event_chain entry @ ''Return winner.''\<rparr>;
          st3 = add_stats_point_ownership (match_ref returner) (match_ref server) st2;
          st4 = maybe_count_break_point st3 was_bp True;
          e2 = e1\<lparr>serve_type := current_point_serve st4, point_winner := returner\<rparr>;
          st5 = st4\<lparr>log_entries := log_entries st4 @ [e2]\<rparr>
      in give_point st5 returner)"

definition return_ue :: "PointLogEntry \<Rightarrow> int \<Rightarrow> int \<Rightarrow> bool \<Rightarrow> MatchState \<Rightarrow> MatchState" where
  "return_ue entry server returner was_bp st =
     (let st1 = add_return_outcome st returner ''ue'';
          st2 = add_server_point_won st1 server (current_point_serve st1);
          e1 = entry\<lparr>event_chain := event_chain entry @ ''Return UE.''\<rparr>;
          st3 = add_stats_point_ownership (match_ref server) (match_ref returner) st2;
          st4 = maybe_count_break_point st3 was_bp False;
          e2 = e1\<lparr>serve_type := current_point_serve st4, point_winner := server\<rparr>;
          st5 = st4\<lparr>log_entries := log_entries st4 @ [e2]\<rparr>
      in give_point st5 server)"

definition return_fe :: "PointLogEntry \<Rightarrow> int \<Rightarrow> int \<Rightarrow> bool \<Rightarrow> MatchState \<Rightarrow> MatchState" where
  "return_fe entry server returner was_bp st =
     (let st1 = add_return_outcome st returner ''fe'';
          st2 = add_rally_outcome st1 server ''fedrawn'';
          st3 = add_server_point_won st2 server (current_point_serve st2);
          e1 = entry\<lparr>event_chain := event_chain entry @ ''Return FE (drawn by server).''\<rparr>;
          st4 = add_stats_point_ownership (match_ref server) (match_ref returner) st3;
          st5 = maybe_count_break_point st4 was_bp False;
          e2 = e1\<lparr>serve_type := current_point_serve st5, point_winner := server\<rparr>;
          st6 = st5\<lparr>log_entries := log_entries st5 @ [e2]\<rparr>
      in give_point st6 server)"

fun return_loop ::
  "PointLogEntry \<Rightarrow> int \<Rightarrow> int \<Rightarrow> bool \<Rightarrow> int list \<Rightarrow> MatchState \<Rightarrow> (MatchState \<times> int list) option" where
  "return_loop entry server returner was_bp [] st = None"
| "return_loop entry server returner was_bp (r # inp) st =
     (if r = 1 then Some (return_winner entry server returner was_bp st, inp)
      else if r = 2 then Some (return_ue entry server returner was_bp st, inp)
      else if r = 3 then Some (return_fe entry server returner was_bp st, inp)
      else if r = 4 then
        rally_loop (entry\<lparr>event_chain := event_chain entry @ ''Return in; ''\<rparr>)
          server returner was_bp inp st
      else return_loop entry server returner was_bp inp st)"

text \<open>
  The branches of the serve menu that end the point at once. The double-fault block is
  the same text in menu choice 4 and in the second-serve prompt of choice 2; the ace and
  the service-winner blocks differ between first and second serve only in the serve type
  and the logged words.
\<close>

definition double_fault :: "PointLogEntry \<Rightarrow> int \<Rightarrow> int \<Rightarrow> bool \<Rightarrow> MatchState \<Rightarrow> MatchState" where
  "double_fault entry server returner was_bp st =
     (let st1 = st\<lparr>current_point_serve := SERVE_SECOND\<rparr>;
          st2 = add_serve_attempt st1 server SERVE_SECOND False;
          st3 = add_double_fault st2 server;
          e1 = entry\<lparr>event_chain := event_chain entry @ ''double fault.''\<rparr>;
          st4 = add_stats_point_ownership (match_ref returner) (match_ref server) st3;
          st5 = maybe_count_break_point st4 was_bp True;
          e2 = e1\<lparr>serve_type := SERVE_SECOND, point_winner := returner\<rparr>;
          st6 = st5\<lparr>log_entries := log_entries st5 @ [e2]\<rparr>
      in give_point st6 returner)"

definition ace :: "ServeType \<Rightarrow> PointLogEntry \<Rightarrow> int \<Rightarrow> int \<Rightarrow> bool \<Rightarrow> MatchState \<Rightarrow> MatchState" where
  "ace t entry server returner was_bp st =
     (let st1 = st\<lparr>current_point_serve := t\<rparr>;
          st2 = add_serve_attempt st1 server t True;
          st3 = add_ace st2 server t;
          st4 = add_server_point_won st3 server t;
          e1 = entry\<lparr>event_chain := event_chain entry @
                  (if t = SERVE_FIRST then ''Ace (1st).'' else ''Ace (2nd).'')\<rparr>;
          st5 = add_stats_point_ownership (match_ref server) (match_ref returner) st4;
          st6 = maybe_count_break_point st5 was_bp False;
          e2 = e1\<lparr>serve_type := t, point_winner := server\<rparr>;
          st7 = st6\<lparr>log_entries := log_entries st6 @ [e2]\<rparr>
      in give_point st7 server)"

definition service_winner :: "ServeType \<Rightarrow> PointLogEntry \<Rightarrow> int \<Rightarrow> int \<Rightarrow> bool \<Rightarrow> MatchState \<Rightarrow> MatchState" where
  "service_winner t entry server returner was_bp st =
     (let st1 = st\<lparr>current_point_serve := t\<rparr>;
          st2 = add_serve_attempt st1 server t True;
          st3 = add_service_winner st2 server t;
          st4 = add_server_point_won st3 server t;
          e1 = entry\<lparr>event_chain := event_chain entry @
                  (if t = SERVE_FIRST then ''Service winner (1st).'' else ''Service winner (2nd).'')\<rparr>;
          st5 = add_stats_point_ownership (match_ref server) (match_ref returner) st4;
          st6 = maybe_count_break_point st5 was_bp False;
          e2 = e1\<lparr>serve_type := t, point_winner := server\<rparr>;
          st7 = st6\<lparr>log_entries := log_entries st6 @ [e2]\<rparr>
      in give_point st7 server)"

text \<open>A serve that is in: \<^verbatim>\<open>break\<close> out of the serve loop into the return menu.\<close>

definition serve_in ::
  "ServeType \<Rightarrow> PointLogEntry \<Rightarrow> int \<Rightarrow> int \<Rightarrow> bool \<Rightarrow> int list \<Rightarrow> MatchState \<Rightarrow> (MatchState \<times> int list) option" where
  "serve_in t entry server returner was_bp inp st =
     (let st1 = st\<lparr>current_point_serve := t\<rparr>;
          st2 = add_serve_attempt st1 server t True;
          e1 = entry\<lparr>event_chain := event_chain entry @
                  (if t = SERVE_FIRST then ''1st in; '' else ''2nd in; '')\<rparr>
      in return_loop e1 server returner was_bp inp st2)"

definition played ::
  "MatchState list \<Rightarrow> (MatchState \<times> int list) option \<Rightarrow>
   (point_exit \<times> (MatchState \<times> MatchState list) \<times> int list) option" where
  "played hist r = (case r of None \<Rightarrow> None
                    | Some (st, inp) \<Rightarrow> Some (PointPlayed, (st, hist), inp))"

function serve_loop ::
  "PointLogEntry \<Rightarrow> int \<Rightarrow> int \<Rightarrow> bool \<Rightarrow> int list \<Rightarrow> MatchState \<Rightarrow> MatchState list \<Rightarrow>
   (point_exit \<times> (MatchState \<times> MatchState list) \<times> int list) option" where
  "serve_loop entry server returner was_bp [] st hist = None"
| "serve_loop entry server returner was_bp (c # inp) st hist =
     (if c = 9 then
        (case inp of
           [] \<Rightarrow> None
         | a # inp1 \<Rightarrow>
             if a = 1 then
               (case stats_menu_loop st inp1 of
                  None \<Rightarrow> None
                | Some inp2 \<Rightarrow> serve_loop entry server returner was_bp inp2 st hist)
             else if a = 2 then
               (case pop_history st hist of (ok1, st1, hist1) \<Rightarrow>
                  (case pop_history st1 hist1 of (ok2, st2, hist2) \<Rightarrow>
                     Some (AdminUndo, (st2, hist2), inp1)))
             else if a = 3 then
               (case pop_history st hist of (ok, st1, hist1) \<Rightarrow>
                  Some (AdminEnd, (st1, hist1), inp1))
             else serve_loop entry server returner was_bp inp1 st hist)
      else if c = 1 then
        played hist (serve_in SERVE_FIRST entry server returner was_bp inp st)
      else if c = 2 then
        (let st1 = add_serve_attempt st server SERVE_FIRST False;
             e1 = entry\<lparr>event_chain := event_chain entry @ ''1st fault -> ''\<rparr>
         in case inp of
              [] \<Rightarrow> None
            | s2 # inp1 \<Rightarrow>
                if s2 = 1
                then played hist (serve_in SERVE_SECOND e1 server returner was_bp inp1 st1)
                else Some (PointPlayed, (double_fault e1 server returner was_bp st1, hist), inp1))
      else if c = 3 then
        played hist (serve_in SERVE_SECOND entry server returner was_bp inp st)
      else if c = 4 then
        Some (PointPlayed, (double_fault entry server returner was_bp st, hist), inp)
      else if c = 5 then
        Some (PointPlayed, (ace SERVE_FIRST entry server returner was_bp st, hist), inp)
      else if c = 6 then
        Some (PointPlayed, (ace SERVE_SECOND entry server returner was_bp st, hist), inp)
      else if c = 7 then
        Some (PointPlayed, (service_winner SERVE_FIRST entry server returner was_bp st, hist), inp)
      else if c = 8 then
        Some (PointPlayed, (service_winner SERVE_SECOND entry server returner was_bp st, hist), inp)
      else serve_loop entry server returner was_bp inp st hist)"
  by pat_completeness auto
termination
  by (relation "measure (\<lambda>(entry, server, returner, was_bp, inp, st, hist). length inp)")
     (auto dest: stats_menu_loop_shorter)

text \<open>
  \<^verbatim>\<open>if (st.in_set_tiebreak || st.in_match_tiebreak10) compute_tiebreak_server(st);\<close>,
  which \<^verbatim>\<open>record_point_and_stats\<close> and the main loop both run.
\<close>

definition enforce_tiebreak_server :: "MatchState \<Rightarrow> MatchState" where
  "enforce_tiebreak_server st =
     (if in_set_tiebreak st \<or> in_match_tiebreak10 st then compute_tiebreak_server st else st)"

text \<open>
  \<^verbatim>\<open>record_point_and_stats\<close>. The source computes the four flags before the point
  and reads only \<^verbatim>\<open>was_break_point\<close> again (for the break-point counters); it assigns
  no \<^verbatim>\<open>was_*\<close> field of the log entry, so these keep their default.
\<close>

definition record_point_and_stats ::
  "int list \<Rightarrow> MatchState \<Rightarrow> MatchState list \<Rightarrow>
   (point_exit \<times> (MatchState \<times> MatchState list) \<times> int list) option" where
  "record_point_and_stats inp st hist =
     (let hist1 = push_history st hist;
          st1 = enforce_tiebreak_server st;
          regular = (\<not> in_set_tiebreak st1 \<and> \<not> in_match_tiebreak10 st1);
          was_break_point = (if regular then is_break_point_if_receiver_wins st1 else False);
          was_game_point = (if regular
                            then is_game_point_for (game_points_p1 st1) (game_points_p2 st1) \<or>
                                 is_game_point_for (game_points_p2 st1) (game_points_p1 st1)
                            else False);
          was_set_point = (if regular
                           then is_set_point_if_player_wins st1 0 \<or>
                                is_set_point_if_player_wins st1 1
                           else False);
          was_match_point = (if regular
                             then is_match_point_if_player_wins st1 0 \<or>
                                  is_match_point_if_player_wins st1 1
                             else False);
          ss = sets st1 ! current_set_index st1;
          entry = PointLogEntry0\<lparr>
                    set_index := current_set_index st1,
                    game_index := games_player1 ss + games_player2 ss,
                    in_tiebreak := (in_set_tiebreak st1 \<or> in_match_tiebreak10 st1),
                    tiebreak_point_number := tb_points_p1 st1 + tb_points_p2 st1 + 1,
                    point_number_in_game := game_points_p1 st1 + game_points_p2 st1 + 1,
                    server_player := current_server st1\<rparr>;
          server = current_server st1;
          returner = (if server = 0 then 1 else 0)
      in serve_loop entry server returner was_break_point inp st1 hist1)"

section \<open>The main loop\<close>

text \<open>
  \<^verbatim>\<open>main\<close> after the three names are read: the first server, the format, and the
  first set.
\<close>

definition main_init :: "string \<Rightarrow> string \<Rightarrow> string \<Rightarrow> int \<Rightarrow> int \<Rightarrow> MatchState" where
  "main_init p1 p2 loc sfirst fchoice =
     start_new_set ((MatchState0 (get_format_by_choice fchoice))
       \<lparr>player1_name := p1, player2_name := p2, location := loc,
        current_server := (if sfirst = 2 then 1 else 0)\<rparr>)"

text \<open>
  The first block of the loop body: at 0-0 in the match tiebreak the program asks who
  serves first (on every iteration that finds the score at 0-0).
\<close>

definition ask_tb10_server :: "int list \<Rightarrow> MatchState \<Rightarrow> (MatchState \<times> int list) option" where
  "ask_tb10_server inp st =
     (if in_match_tiebreak10 st \<and> tb_points_p1 st = 0 \<and> tb_points_p2 st = 0
      then (case inp of
              [] \<Rightarrow> None
            | tbsv # inp' \<Rightarrow>
                (let st1 = st\<lparr>tb_start_server := (if tbsv = 2 then 1 else 0)\<rparr>
                 in Some (st1\<lparr>current_server := tb_start_server st1\<rparr>, inp')))
      else Some (st, inp))"

text \<open>
  The main menu: the new state and history, the value of \<^verbatim>\<open>done\<close>, and the input
  left. Printing and saving results is output only; the choice read after the match is
  consumed.
\<close>

definition main_menu ::
  "int list \<Rightarrow> MatchState \<Rightarrow> MatchState list \<Rightarrow>
   ((MatchState \<times> MatchState list) \<times> bool \<times> int list) option" where
  "main_menu inp st hist =
     (case inp of
        [] \<Rightarrow> None
      | m # inp2 \<Rightarrow>
          if m = 1 then
            (case record_point_and_stats inp2 st hist of
               None \<Rightarrow> None
             | Some (ex, (st3, hist3), inp3) \<Rightarrow>
                 if match_is_over_now st3
                 then (case inp3 of [] \<Rightarrow> None
                       | e # inp4 \<Rightarrow> Some ((st3, hist3), True, inp4))
                 else Some ((st3, hist3), False, inp3))
          else if m = 2 then
            (case stats_menu_loop st inp2 of
               None \<Rightarrow> None
             | Some inp3 \<Rightarrow> Some ((st, hist), False, inp3))
          else if m = 3 then
            (case pop_history st hist of (ok, st3, hist3) \<Rightarrow>
               Some ((st3, hist3), False, inp2))
          else if m = 4 then
            (case inp2 of [] \<Rightarrow> None
             | e # inp3 \<Rightarrow> Some ((st, hist), True, inp3))
          else Some ((st, hist), False, inp2))"

text \<open>One iteration of \<^verbatim>\<open>while(!done)\<close>.\<close>

definition main_loop_body ::
  "int list \<Rightarrow> MatchState \<Rightarrow> MatchState list \<Rightarrow>
   ((MatchState \<times> MatchState list) \<times> bool \<times> int list) option" where
  "main_loop_body inp st hist =
     (case ask_tb10_server inp st of
        None \<Rightarrow> None
      | Some (st1, inp1) \<Rightarrow> main_menu inp1 (enforce_tiebreak_server st1) hist)"

text \<open>
  The states the program can be in at the head of the main loop (with \<open>done\<close> false) or
  when the loop has ended (with \<open>done\<close> true), for any names, first server, format choice
  and typed input.
\<close>

inductive reachable :: "MatchState \<Rightarrow> MatchState list \<Rightarrow> bool \<Rightarrow> bool" where
  start: "reachable (main_init p1 p2 loc sfirst fchoice) [] False"
| step: "reachable st hist False \<Longrightarrow>
         main_loop_body inp st hist = Some ((st', hist'), d, inp') \<Longrightarrow>
         reachable st' hist' d"

text \<open>
  The loop \<^verbatim>\<open>while(!done)\<close> on a given input. \<open>Some (w, True)\<close>: the loop ended in
  \<open>w\<close>. \<open>Some (w, False)\<close>: all input was consumed and the program waits at the head of
  the loop in \<open>w\<close>. \<open>None\<close>: the input ran out inside an iteration.
\<close>

lemma rally_loop_shorter:
  "rally_loop entry server returner was_bp inp st = Some (st', inp') \<Longrightarrow> length inp' < length inp"
proof (induction entry server returner was_bp inp st rule: rally_loop.induct)
  case (3 entry server returner was_bp rv netChoice inp st)
  from "3.prems" obtain net_player inp1 where rn: "read_net netChoice inp = Some (net_player, inp1)"
    by (auto split: option.splits)
  have le: "length inp1 \<le> length inp" using rn by (rule read_net_shorter)
  show ?case
  proof (cases "rally_choice st server returner rv")
    case None
    with "3.prems" rn have "rally_loop entry server returner was_bp inp1 st = Some (st', inp')"
      by simp
    with "3.IH" rn None have "length inp' < length inp1" by simp
    with le show ?thesis by simp
  next
    case (Some r)
    with "3.prems" rn have "inp' = inp1" by (auto split: prod.splits)
    with le show ?thesis by simp
  qed
qed simp_all

lemma return_loop_shorter:
  "return_loop entry server returner was_bp inp st = Some (st', inp') \<Longrightarrow> length inp' < length inp"
  by (induction entry server returner was_bp inp st rule: return_loop.induct)
     (auto split: if_splits dest: rally_loop_shorter)

lemma serve_loop_shorter:
  "serve_loop entry server returner was_bp inp st hist = Some (ex, w, inp') \<Longrightarrow>
   length inp' < length inp"
proof (induction entry server returner was_bp inp st hist rule: serve_loop.induct)
  case (1 entry server returner was_bp st hist)
  then show ?case by simp
next
  case (2 entry server returner was_bp c inp st hist)
  then show ?case
    by (fastforce simp: played_def serve_in_def Let_def
          split: if_splits list.splits option.splits prod.splits
          dest: return_loop_shorter stats_menu_loop_shorter)
qed

lemma record_point_and_stats_shorter:
  "record_point_and_stats inp st hist = Some (ex, w, inp') \<Longrightarrow> length inp' < length inp"
  unfolding record_point_and_stats_def Let_def by (rule serve_loop_shorter)

lemma ask_tb10_server_shorter:
  "ask_tb10_server inp st = Some (st1, inp1) \<Longrightarrow> length inp1 \<le> length inp"
  by (auto simp: ask_tb10_server_def Let_def split: if_splits list.splits)

lemma main_menu_shorter:
  "main_menu inp st hist = Some (w, d, inp') \<Longrightarrow> length inp' < length inp"
  unfolding main_menu_def
  by (fastforce split: if_splits list.splits option.splits prod.splits
        dest: record_point_and_stats_shorter stats_menu_loop_shorter)

lemma main_loop_body_shorter:
  "main_loop_body inp st hist = Some (w, d, inp') \<Longrightarrow> length inp' < length inp"
  unfolding main_loop_body_def
  by (fastforce split: option.splits dest: ask_tb10_server_shorter main_menu_shorter)

function main_loop ::
  "int list \<Rightarrow> MatchState \<Rightarrow> MatchState list \<Rightarrow> ((MatchState \<times> MatchState list) \<times> bool) option" where
  "main_loop [] st hist = Some ((st, hist), False)"
| "main_loop (m # inp) st hist =
     (case main_loop_body (m # inp) st hist of
        None \<Rightarrow> None
      | Some ((st', hist'), d, inp') \<Rightarrow>
          if d then Some ((st', hist'), True) else main_loop inp' st' hist')"
  by pat_completeness auto
termination
  by (relation "measure (\<lambda>(inp, st, hist). length inp)")
     (auto dest: main_loop_body_shorter)

section \<open>Predicates for the proofs\<close>

text \<open>
  \<open>stats_step k st mid\<close>: \<open>mid\<close> differs from \<open>st\<close> only in the statistics blocks and
  in \<^verbatim>\<open>current_point_serve\<close>; the match totals of points won (summed over the
  players) and of points played (for each player) have grown by \<open>k\<close>; the per-set
  counters of points won and played have not changed.
\<close>

definition stats_step :: "int \<Rightarrow> MatchState \<Rightarrow> MatchState \<Rightarrow> bool" where
  "stats_step k st mid \<longleftrightarrow>
     player1_name mid = player1_name st \<and> player2_name mid = player2_name st \<and>
     location mid = location st \<and> format mid = format st \<and>
     best_of_sets mid = best_of_sets st \<and> sets_to_win mid = sets_to_win st \<and>
     sets mid = sets st \<and> current_set_index mid = current_set_index st \<and>
     game_points_p1 mid = game_points_p1 st \<and> game_points_p2 mid = game_points_p2 st \<and>
     in_set_tiebreak mid = in_set_tiebreak st \<and>
     in_match_tiebreak10 mid = in_match_tiebreak10 st \<and>
     tb_points_p1 mid = tb_points_p1 st \<and> tb_points_p2 mid = tb_points_p2 st \<and>
     tb_start_server mid = tb_start_server st \<and> current_server mid = current_server st \<and>
     sets_won_p1 mid = sets_won_p1 st \<and> sets_won_p2 mid = sets_won_p2 st \<and>
     log_entries mid = log_entries st \<and>
     points_won (match_stats_p1 mid) + points_won (match_stats_p2 mid)
       = points_won (match_stats_p1 st) + points_won (match_stats_p2 st) + k \<and>
     points_played (match_stats_p1 mid) = points_played (match_stats_p1 st) + k \<and>
     points_played (match_stats_p2 mid) = points_played (match_stats_p2 st) + k \<and>
     map points_won (per_set_stats_p1 mid) = map points_won (per_set_stats_p1 st) \<and>
     map points_won (per_set_stats_p2 mid) = map points_won (per_set_stats_p2 st) \<and>
     map points_played (per_set_stats_p1 mid) = map points_played (per_set_stats_p1 st) \<and>
     map points_played (per_set_stats_p2 mid) = map points_played (per_set_stats_p2 st)"

text \<open>
  \<open>keeps_stats st st'\<close>: the match totals and the log are the same, and each per-set
  vector is the same or has one fresh block appended.
\<close>

definition keeps_stats :: "MatchState \<Rightarrow> MatchState \<Rightarrow> bool" where
  "keeps_stats st st' \<longleftrightarrow>
     match_stats_p1 st' = match_stats_p1 st \<and> match_stats_p2 st' = match_stats_p2 st \<and>
     log_entries st' = log_entries st \<and>
     (per_set_stats_p1 st' = per_set_stats_p1 st \<or>
      per_set_stats_p1 st' = per_set_stats_p1 st @ [PlayerStats0]) \<and>
     (per_set_stats_p2 st' = per_set_stats_p2 st \<or>
      per_set_stats_p2 st' = per_set_stats_p2 st @ [PlayerStats0])"

text \<open>
  \<open>played_point st st'\<close>: \<open>st'\<close> comes from \<open>st\<close> by statistics updates that count one
  point, one appended log entry, and the score update \<open>give_point\<close>.
\<close>

definition played_point :: "MatchState \<Rightarrow> MatchState \<Rightarrow> bool" where
  "played_point st st' \<longleftrightarrow>
     (\<exists>mid e w. stats_step 1 st mid \<and>
        st' = give_point (mid\<lparr>log_entries := log_entries mid @ [e]\<rparr>) w)"

text \<open>What each exit of the serve loop leaves behind.\<close>

definition exit_ok ::
  "MatchState \<Rightarrow> MatchState list \<Rightarrow> point_exit \<Rightarrow> MatchState \<Rightarrow> MatchState list \<Rightarrow> bool" where
  "exit_ok st hist ex st' hist' \<longleftrightarrow>
     (case ex of
        PointPlayed \<Rightarrow> hist' = hist \<and> played_point st st'
      | AdminUndo \<Rightarrow> (case pop_history st hist of (ok1, st1, hist1) \<Rightarrow>
                       (case pop_history st1 hist1 of (ok2, st2, hist2) \<Rightarrow>
                          st' = st2 \<and> hist' = hist2))
      | AdminEnd \<Rightarrow> (case pop_history st hist of (ok, st1, hist1) \<Rightarrow>
                       st' = st1 \<and> hist' = hist1))"

text \<open>
  The shape of a match state while the match is being played: the current set is the
  last one and has its two statistics blocks, at most one tiebreak mode is on, the
  match tiebreak is only on at one set all under the tiebreak-10 format, two sets win
  the match, and the current game has not been won yet.
\<close>

definition wf_state :: "MatchState \<Rightarrow> bool" where
  "wf_state st \<longleftrightarrow>
     current_set_index st + 1 = length (sets st) \<and>
     length (per_set_stats_p1 st) = length (sets st) \<and>
     length (per_set_stats_p2 st) = length (sets st) \<and>
     \<not> (in_set_tiebreak st \<and> in_match_tiebreak10 st) \<and>
     (in_match_tiebreak10 st \<longrightarrow>
        sets_won_p1 st = 1 \<and> sets_won_p2 st = 1 \<and> deciding (format st) = DECIDING_TB10) \<and>
     sets_to_win st = 2 \<and>
     \<not> ((game_points_p1 st \<ge> 4 \<or> game_points_p2 st \<ge> 4)
        \<and> \<bar>game_points_p1 st - game_points_p2 st\<bar> \<ge> 2)"

text \<open>
  A state of a match still in progress: the shape above, and nobody has won the two sets.
\<close>

definition in_play :: "MatchState \<Rightarrow> bool" where
  "in_play st \<longleftrightarrow> wf_state st \<and> \<not> match_is_over_now st"

text \<open>
  A state after a point outside the match tiebreak: the shape above, and if the match is
  over then the last set record is marked finished (the set that decided it).
\<close>

definition settled :: "MatchState \<Rightarrow> bool" where
  "settled st \<longleftrightarrow>
     wf_state st \<and> (\<not> match_is_over_now st \<or> set_finished (last (sets st)))"

text \<open>
  How a match that the match tiebreak-10 has decided is recognised, without looking at
  the current set index: the format has the tiebreak-10 decider, the match is over, and
  the last set record is the one appended for the decider, marked as a tiebreak and not
  marked finished.
\<close>

definition tb10_final :: "MatchState \<Rightarrow> bool" where
  "tb10_final st \<longleftrightarrow>
     match_is_over_now st \<and> deciding (format st) = DECIDING_TB10 \<and>
     set_tiebreak_played (last (sets st)) \<and> \<not> set_finished (last (sets st))"

definition tally_inv :: "MatchState \<Rightarrow> bool" where
  "tally_inv st \<longleftrightarrow>
     points_won (match_stats_p1 st) + points_won (match_stats_p2 st) = int (length (log_entries st)) \<and>
     points_played (match_stats_p1 st) = int (length (log_entries st)) \<and>
     points_played (match_stats_p2 st) = int (length (log_entries st))"

text \<open>\<open>same_score st st2\<close>: only the two server fields may differ.\<close>

definition same_score :: "MatchState \<Rightarrow> MatchState \<Rightarrow> bool" where
  "same_score st st2 \<longleftrightarrow>
     player1_name st2 = player1_name st \<and> player2_name st2 = player2_name st \<and>
     location st2 = location st \<and> format st2 = format st \<and>
     best_of_sets st2 = best_of_sets st \<and> sets_to_win st2 = sets_to_win st \<and>
     sets st2 = sets st \<and> per_set_stats_p1 st2 = per_set_stats_p1 st \<and>
     per_set_stats_p2 st2 = per_set_stats_p2 st \<and>
     current_set_index st2 = current_set_index st \<and>
     game_points_p1 st2 = game_points_p1 st \<and> game_points_p2 st2 = game_points_p2 st \<and>
     in_set_tiebreak st2 = in_set_tiebreak st \<and>
     in_match_tiebreak10 st2 = in_match_tiebreak10 st \<and>
     tb_points_p1 st2 = tb_points_p1 st \<and> tb_points_p2 st2 = tb_points_p2 st \<and>
     sets_won_p1 st2 = sets_won_p1 st \<and> sets_won_p2 st2 = sets_won_p2 st \<and>
     match_stats_p1 st2 = match_stats_p1 st \<and> match_stats_p2 st2 = match_stats_p2 st \<and>
     current_point_serve st2 = current_point_serve st \<and> log_entries st2 = log_entries st"

text \<open>
  The invariant of the main loop. The live state and every snapshot on the history
  stack satisfy the tally. The snapshots are states in progress. So is the live state
  while the loop runs; once the loop has ended it may also be the state after the
  deciding point, which is \<open>settled\<close>, or is the final state of a match tiebreak with
  the current set index two below the number of set records.
\<close>

definition world_inv :: "MatchState \<Rightarrow> MatchState list \<Rightarrow> bool \<Rightarrow> bool" where
  "world_inv st hist d \<longleftrightarrow>
     tally_inv st \<and> (\<forall>s \<in> set hist. tally_inv s \<and> in_play s) \<and>
     (in_play st \<or>
      (d \<and> (settled st \<or>
            (tb10_final st \<and> current_set_index st + 2 = length (sets st)))))"

text \<open>The five return counters of a statistics block.\<close>

definition return_stats :: "PlayerStats \<Rightarrow> int \<times> int \<times> int \<times> int \<times> int" where
  "return_stats s = (return_winners s, return_unforced_errors s, return_forced_errors s,
                     return_points_won_vs_first s, return_points_won_vs_second s)"

text \<open>
  \<open>keeps_returns r st a\<close>: the block that \<open>r\<close> refers to has the same return counters in
  \<open>a\<close> as in \<open>st\<close>, and the per-set vectors have the same lengths.
\<close>

definition keeps_returns :: "stats_ref \<Rightarrow> MatchState \<Rightarrow> MatchState \<Rightarrow> bool" where
  "keeps_returns r st a \<longleftrightarrow>
     return_stats (deref a r) = return_stats (deref st r) \<and>
     length (per_set_stats_p1 a) = length (per_set_stats_p1 st) \<and>
     length (per_set_stats_p2 a) = length (per_set_stats_p2 st)"

text \<open>
  What is read off a result of the main loop: the index of the current set, the number
  of set records, whether the loop has ended, and whether the state is \<open>tb10_final\<close>.
\<close>

definition shape :: "((MatchState \<times> MatchState list) \<times> bool) option \<Rightarrow> (nat \<times> nat \<times> bool \<times> bool) option" where
  "shape r = (case r of None \<Rightarrow> None
              | Some ((st, hist), d) \<Rightarrow>
                  Some (current_set_index st, length (sets st), d, tb10_final st))"

section \<open>Example states\<close>

definition tb_example :: MatchState where
  "tb_example = (MatchState0 (get_format_by_choice 1))
     \<lparr>in_set_tiebreak := True, tb_points_p1 := 3, tb_points_p2 := 2, tb_start_server := 0\<rparr>"

text \<open>
  A match in the first format with player 1 serving, before the first point; the log
  entry that \<^verbatim>\<open>record_point_and_stats\<close> prepares for that point; and the state after
  player 1 has served an ace on first serve.
\<close>

definition init_example :: MatchState where
  "init_example = main_init ''A'' ''B'' ''Court 1'' 1 1"

definition first_entry :: PointLogEntry where
  "first_entry = PointLogEntry0\<lparr>tiebreak_point_number := 1, point_number_in_game := 1\<rparr>"

definition after_ace_example :: MatchState where
  "after_ace_example = ace SERVE_FIRST first_entry 0 1 False init_example"

text \<open>The same match at 40-0 for player 1.\<close>

definition game_example :: MatchState where
  "game_example = init_example\<lparr>game_points_p1 := 3\<rparr>"

text \<open>
  A match in the second format (match tiebreak-10 as decider) in its second set, player 1
  having won the first.
\<close>

definition tb10_entry_example :: MatchState where
  "tb10_entry_example =
     start_new_set ((main_init ''A'' ''B'' ''Court 1'' 1 2)\<lparr>sets_won_p1 := 1\<rparr>)"

text \<open>
  A whole match in the second format, as typed. Every point is "1" (record next point)
  and a serve-menu choice: 5, an ace on first serve, gives the point to the server and
  4, a double fault, to the receiver. Player 1 serves first and wins the first set 6-0,
  player 2 wins the second 6-0, and player 1, chosen to serve first in the match tiebreak
  by the extra "1", wins it 10-0; the last number answers the menu shown after the match.
\<close>

definition love_game :: "int \<Rightarrow> int list" where
  "love_game c = concat (replicate 4 [1, c])"

definition tb10_example_input :: "int list" where
  "tb10_example_input =
     concat (replicate 3 (love_game 5 @ love_game 4)) @
     concat (replicate 3 (love_game 4 @ love_game 5)) @
     [1, 1, 5,  1, 4,  1, 4,  1, 5,  1, 5,  1, 4,  1, 4,  1, 5,  1, 5,  1, 4,  5]"

definition tb10_decided :: "((MatchState \<times> MatchState list) \<times> bool) option" where
  "tb10_decided = main_loop tb10_example_input (main_init ''A'' ''B'' ''Court 1'' 1 2) []"

definition tb10_decided_state :: MatchState where
  "tb10_decided_state = fst (fst (the tb10_decided))"

definition tb10_decided_history :: "MatchState list" where
  "tb10_decided_history = snd (fst (the tb10_decided))"

section \<open>How the statistics updates act on the state\<close>

lemma modify_frame [simp]:
  "player1_name (modify r g st) = player1_name st"
  "player2_name (modify r g st) = player2_name st"
  "location (modify r g st) = location st"
  "format (modify r g st) = format st"
  "best_of_sets (modify r g st) = best_of_sets st"
  "sets_to_win (modify r g st) = sets_to_win st"
  "sets (modify r g st) = sets st"
  "current_set_index (modify r g st) = current_set_index st"
  "game_points_p1 (modify r g st) = game_points_p1 st"
  "game_points_p2 (modify r g st) = game_points_p2 st"
  "in_set_tiebreak (modify r g st) = in_set_tiebreak st"
  "in_match_tiebreak10 (modify r g st) = in_match_tiebreak10 st"
  "tb_points_p1 (modify r g st) = tb_points_p1 st"
  "tb_points_p2 (modify r g st) = tb_points_p2 st"
  "tb_start_server (modify r g st) = tb_start_server st"
  "current_server (modify r g st) = current_server st"
  "sets_won_p1 (modify r g st) = sets_won_p1 st"
  "sets_won_p2 (modify r g st) = sets_won_p2 st"
  "current_point_serve (modify r g st) = current_point_serve st"
  "log_entries (modify r g st) = log_entries st"
  by (cases r; simp)+

lemma set_ref_modify [simp]: "set_ref (modify r g st) p = set_ref st p"
  by (simp add: set_ref_def)

lemma map_update_neutral:
  "(\<And>s. f (g s) = f s) \<Longrightarrow> map f (xs[i := g (xs ! i)]) = map f xs"
proof (rule nth_equalityI)
  show "length (map f (xs[i := g (xs ! i)])) = length (map f xs)" by simp
next
  fix j assume "j < length (map f (xs[i := g (xs ! i)]))"
  then have j: "j < length xs" by simp
  assume n: "\<And>s. f (g s) = f s"
  show "map f (xs[i := g (xs ! i)]) ! j = map f xs ! j"
    using j n by (cases "i = j") simp_all
qed

lemma stats_step_refl: "k = 0 \<Longrightarrow> stats_step k st st"
  by (simp add: stats_step_def)

lemma stats_step_trans: "stats_step j st a \<Longrightarrow> stats_step k a b \<Longrightarrow> stats_step (j + k) st b"
  by (simp add: stats_step_def)

lemma stats_step_modify:
  assumes "stats_step k st a"
    and "\<And>s. points_won (g s) = points_won s"
    and "\<And>s. points_played (g s) = points_played s"
  shows "stats_step k st (modify r g a)"
  using assms by (cases r) (simp_all add: stats_step_def map_update_neutral)

lemma stats_step_serve:
  "stats_step k st a \<Longrightarrow> stats_step k st (a\<lparr>current_point_serve := t\<rparr>)"
  by (simp add: stats_step_def)

lemma step_add_serve_attempt:
  "stats_step k st a \<Longrightarrow> stats_step k st (add_serve_attempt a server t b)"
  by (simp add: add_serve_attempt_def Let_def incr_def stats_step_modify)

lemma step_add_double_fault:
  "stats_step k st a \<Longrightarrow> stats_step k st (add_double_fault a server)"
  by (simp add: add_double_fault_def Let_def stats_step_modify)

lemma step_add_ace:
  "stats_step k st a \<Longrightarrow> stats_step k st (add_ace a server t)"
  by (simp add: add_ace_def Let_def stats_step_modify)

lemma step_add_service_winner:
  "stats_step k st a \<Longrightarrow> stats_step k st (add_service_winner a server t)"
  by (simp add: add_service_winner_def Let_def stats_step_modify)

lemma step_add_return_outcome:
  "stats_step k st a \<Longrightarrow> stats_step k st (add_return_outcome a p kind)"
  by (simp add: add_return_outcome_def Let_def stats_step_modify)

lemma step_add_rally_outcome:
  "stats_step k st a \<Longrightarrow> stats_step k st (add_rally_outcome a p kind)"
  by (simp add: add_rally_outcome_def Let_def stats_step_modify)

lemma step_add_return_points_won:
  "stats_step k st a \<Longrightarrow> stats_step k st (add_return_points_won a p t)"
  by (simp add: add_return_points_won_def Let_def stats_step_modify)

lemma step_add_server_point_won:
  "stats_step k st a \<Longrightarrow> stats_step k st (add_server_point_won a p t)"
  by (simp add: add_server_point_won_def Let_def stats_step_modify)

lemma step_maybe_count_break_point:
  "stats_step k st a \<Longrightarrow> stats_step k st (maybe_count_break_point a bp won)"
  by (simp add: maybe_count_break_point_def Let_def stats_step_modify)

lemma step_add_stats_net:
  "stats_step k st a \<Longrightarrow> stats_step k st (add_stats_net r won a)"
  by (simp add: add_stats_net_def Let_def stats_step_modify)

lemma step_ownership:
  assumes "stats_step k st a" and "(w = 0) \<noteq> (l = 0)"
  shows "stats_step (k + 1) st (add_stats_point_ownership (match_ref w) (match_ref l) a)"
  using assms
  by (auto simp: stats_step_def add_stats_point_ownership_def match_ref_def incr_def)

lemma step_ownership_rally:
  assumes "stats_step k st a"
  shows "stats_step (k + 1) st
           (add_stats_point_ownership (match_ref pw) (if pw = 0 then Match_p2 else Match_p1) a)"
  using assms
  by (auto simp: stats_step_def add_stats_point_ownership_def match_ref_def incr_def)

lemmas stats_steps = stats_step_serve step_add_serve_attempt step_add_double_fault step_add_ace
  step_add_service_winner step_add_return_outcome step_add_rally_outcome
  step_add_return_points_won step_add_server_point_won step_maybe_count_break_point
  step_add_stats_net

section \<open>The score update keeps the shape of the state\<close>

lemma award_game_wf: "wf_state st \<Longrightarrow> wf_state (award_game st p)"
  by (simp add: wf_state_def award_game_def Let_def)

lemma start_new_set_wf:
  "wf_state st \<Longrightarrow> \<not> in_match_tiebreak10 st \<Longrightarrow> wf_state (start_new_set st)"
  by (simp add: wf_state_def start_new_set_def Let_def)

lemma close_set_wf:
  "wf_state st \<Longrightarrow> \<not> in_set_tiebreak st \<Longrightarrow> \<not> in_match_tiebreak10 st \<Longrightarrow>
   wf_state (close_set_and_prepare_next st w)"
  by (auto simp: wf_state_def close_set_and_prepare_next_def start_new_set_def Let_def)

lemma award_game_over: "match_is_over_now (award_game st p) = match_is_over_now st"
  by (simp add: match_is_over_now_def award_game_def Let_def)

lemma in_play_settled: "in_play st \<Longrightarrow> settled st"
  by (simp add: in_play_def settled_def)

lemma close_set_settled:
  assumes "wf_state st" "\<not> in_set_tiebreak st" "\<not> in_match_tiebreak10 st"
  shows "settled (close_set_and_prepare_next st w)"
proof -
  have w: "wf_state (close_set_and_prepare_next st w)" using assms by (rule close_set_wf)
  from assms(1) have ne: "sets st \<noteq> []" and i: "current_set_index st = length (sets st) - 1"
    by (auto simp: wf_state_def)
  have "\<not> match_is_over_now (close_set_and_prepare_next st w) \<or>
        set_finished (last (sets (close_set_and_prepare_next st w)))"
    using ne i
    by (auto simp: close_set_and_prepare_next_def start_new_set_def Let_def
          match_is_over_now_def last_list_update)
  with w show ?thesis by (simp add: settled_def)
qed

lemma give_point_regular_settled:
  assumes "in_play st" "\<not> in_set_tiebreak st" "\<not> in_match_tiebreak10 st"
  shows "settled (give_point_regular st w)"
proof -
  from assms(1) have wf: "wf_state st" and no: "\<not> match_is_over_now st"
    by (simp_all add: in_play_def)
  define st1 where "st1 = (if w = 0 then st\<lparr>game_points_p1 := game_points_p1 st + 1\<rparr>
                 else st\<lparr>game_points_p2 := game_points_p2 st + 1\<rparr>)"
  define st2 where "st2 = award_game st1 (if game_points_p1 st1 > game_points_p2 st1 then 0 else 1)"
  define st3 where "st3 = (if \<not> in_match_tiebreak10 st2 \<and> check_enter_set_tiebreak st2
                       then let i = current_set_index st2
                            in st2\<lparr>in_set_tiebreak := True,
                                   sets := (sets st2)[i := (sets st2 ! i)\<lparr>set_tiebreak_played := True\<rparr>],
                                   tb_points_p1 := 0, tb_points_p2 := 0,
                                   tb_start_server := current_server st2\<rparr>
                       else st2)"
  have o1: "\<not> match_is_over_now st1" using no by (simp add: st1_def match_is_over_now_def)
  have a: "wf_state (award_game st1 p)" for p
    using wf assms(2,3) by (simp add: wf_state_def award_game_def Let_def st1_def)
  have f2: "\<not> in_set_tiebreak st2" "\<not> in_match_tiebreak10 st2"
    using assms by (simp_all add: st2_def award_game_def Let_def st1_def)
  have o2: "\<not> match_is_over_now st2" using o1 by (simp add: st2_def award_game_over)
  have w3: "wf_state st3"
    using a[of "if game_points_p1 st1 > game_points_p2 st1 then 0 else 1"] f2
    by (simp add: st3_def st2_def [symmetric] wf_state_def Let_def)
  have o3: "\<not> match_is_over_now st3" using o2 by (simp add: st3_def Let_def match_is_over_now_def)
  have s3: "settled st3" using w3 o3 by (simp add: settled_def)
  have f3: "\<not> in_match_tiebreak10 st3" using f2 by (simp add: st3_def Let_def)
  have c: "settled (case set_is_won_now st3 of
                    Some set_winner \<Rightarrow> close_set_and_prepare_next st3 set_winner
                  | None \<Rightarrow> st3)" if "\<not> in_set_tiebreak st3"
    using w3 f3 s3 that by (auto split: option.splits intro: close_set_settled)
  have open1: "\<not> ((game_points_p1 st1 \<ge> 4 \<or> game_points_p2 st1 \<ge> 4)
        \<and> \<bar>game_points_p1 st1 - game_points_p2 st1\<bar> \<ge> 2) \<Longrightarrow> settled st1"
    using wf o1 by (simp add: settled_def wf_state_def st1_def)
  have eq: "give_point_regular st w =
      (if game_points_p1 st1 \<ge> 4 \<or> game_points_p2 st1 \<ge> 4
       then (if \<bar>game_points_p1 st1 - game_points_p2 st1\<bar> \<ge> 2
         then (if \<not> in_set_tiebreak st3
             then (case set_is_won_now st3 of
                    Some set_winner \<Rightarrow> close_set_and_prepare_next st3 set_winner
                  | None \<Rightarrow> st3)
             else st3)
         else st1)
       else st1)"
    by (simp only: give_point_regular_def Let_def st1_def st2_def st3_def)
  show ?thesis
  proof (cases "(game_points_p1 st1 \<ge> 4 \<or> game_points_p2 st1 \<ge> 4)
                 \<and> \<bar>game_points_p1 st1 - game_points_p2 st1\<bar> \<ge> 2")
    case True
    then have "give_point_regular st w = (if \<not> in_set_tiebreak st3
             then (case set_is_won_now st3 of
                    Some set_winner \<Rightarrow> close_set_and_prepare_next st3 set_winner
                  | None \<Rightarrow> st3)
             else st3)"
      by (simp only: eq if_True simp_thms)
    then show ?thesis using c s3 by (cases "in_set_tiebreak st3") (simp_all only: if_True if_False simp_thms)
  next
    case False
    then have "give_point_regular st w = st1"
      unfolding eq by (simp only: split: if_splits) blast
    then show ?thesis using open1 False by simp
  qed
qed

lemma give_point_set_tiebreak_settled:
  assumes "in_play st" "in_set_tiebreak st"
  shows "settled (give_point_tiebreak st w True)"
proof -
  from assms(1) have wf: "wf_state st" and no: "\<not> match_is_over_now st"
    by (simp_all add: in_play_def)
  have n: "\<not> in_match_tiebreak10 st" using wf assms(2) by (auto simp: wf_state_def)
  define st1 where "st1 = (if w = 0 then st\<lparr>tb_points_p1 := tb_points_p1 st + 1\<rparr>
                 else st\<lparr>tb_points_p2 := tb_points_p2 st + 1\<rparr>)"
  have w1: "wf_state st1" using wf by (simp add: wf_state_def st1_def)
  have o1: "\<not> match_is_over_now st1" using no by (simp add: st1_def match_is_over_now_def)
  have s1: "settled st1" using w1 o1 by (simp add: settled_def)
  have n1: "\<not> in_match_tiebreak10 st1" using n by (simp add: st1_def)
  have "settled (close_set_and_prepare_next
          (st1\<lparr>sets := (sets st1)[current_set_index st1 := (sets st1 ! current_set_index st1)
                                  \<lparr>set_tb_points_p1 := tb_points_p1 st1,
                                   set_tb_points_p2 := tb_points_p2 st1\<rparr>],
                               in_set_tiebreak := False\<rparr>) sw)" for sw
    using w1 n1 by (intro close_set_settled) (simp_all add: wf_state_def)
  then show ?thesis
    unfolding give_point_tiebreak_def Let_def st1_def [symmetric]
    using s1 by (simp split: option.splits)
qed

text \<open>
  The match tiebreak. While it is undecided the state stays in progress. The point that
  decides it ends the match, appends the decider's record, and leaves the current set
  index where it was: two below the number of set records.
\<close>

lemma give_point_match_tiebreak_settled:
  assumes "in_play st" "in_match_tiebreak10 st"
  shows "settled (give_point_tiebreak st w False) \<or>
         (tb10_final (give_point_tiebreak st w False) \<and>
          current_set_index (give_point_tiebreak st w False) + 2
            = length (sets (give_point_tiebreak st w False)))"
proof -
  from assms(1) have wf: "wf_state st" and no: "\<not> match_is_over_now st"
    by (simp_all add: in_play_def)
  define st1 where "st1 = (if w = 0 then st\<lparr>tb_points_p1 := tb_points_p1 st + 1\<rparr>
                 else st\<lparr>tb_points_p2 := tb_points_p2 st + 1\<rparr>)"
  have w1: "wf_state st1" using wf by (simp add: wf_state_def st1_def)
  have o1: "\<not> match_is_over_now st1" using no by (simp add: st1_def match_is_over_now_def)
  have i1: "in_match_tiebreak10 st1" using assms(2) by (simp add: st1_def)
  show ?thesis
  proof (cases "match_tiebreak10_won st1")
    case None
    then show ?thesis
      unfolding give_point_tiebreak_def Let_def st1_def [symmetric]
      using w1 o1 by (simp add: settled_def)
  next
    case (Some mw)
    then have "tb10_final (give_point_tiebreak st w False) \<and>
          current_set_index (give_point_tiebreak st w False) + 2
            = length (sets (give_point_tiebreak st w False))"
      unfolding give_point_tiebreak_def Let_def st1_def [symmetric] using w1 i1
      by (simp add: tb10_final_def wf_state_def match_is_over_now_def SetScore0_def)
    then show ?thesis ..
  qed
qed

lemma give_point_settled:
  "in_play st \<Longrightarrow>
   settled (give_point st w) \<or>
   (tb10_final (give_point st w) \<and>
    current_set_index (give_point st w) + 2 = length (sets (give_point st w)))"
  unfolding give_point_def
  by (auto dest: give_point_set_tiebreak_settled give_point_match_tiebreak_settled
        give_point_regular_settled)

section \<open>The score update keeps statistics and log\<close>

lemma start_new_set_keeps:
  "match_stats_p1 (start_new_set st) = match_stats_p1 st"
  "match_stats_p2 (start_new_set st) = match_stats_p2 st"
  "log_entries (start_new_set st) = log_entries st"
  "per_set_stats_p1 (start_new_set st) = per_set_stats_p1 st @ [PlayerStats0]"
  "per_set_stats_p2 (start_new_set st) = per_set_stats_p2 st @ [PlayerStats0]"
  by (simp_all add: start_new_set_def Let_def)

lemma award_game_keeps:
  "match_stats_p1 (award_game st p) = match_stats_p1 st"
  "match_stats_p2 (award_game st p) = match_stats_p2 st"
  "log_entries (award_game st p) = log_entries st"
  "per_set_stats_p1 (award_game st p) = per_set_stats_p1 st"
  "per_set_stats_p2 (award_game st p) = per_set_stats_p2 st"
  by (simp_all add: award_game_def Let_def)

lemma close_set_keeps:
  "match_stats_p1 (close_set_and_prepare_next st p) = match_stats_p1 st"
  "match_stats_p2 (close_set_and_prepare_next st p) = match_stats_p2 st"
  "log_entries (close_set_and_prepare_next st p) = log_entries st"
  "per_set_stats_p1 (close_set_and_prepare_next st p) = per_set_stats_p1 st \<or>
   per_set_stats_p1 (close_set_and_prepare_next st p) = per_set_stats_p1 st @ [PlayerStats0]"
  "per_set_stats_p2 (close_set_and_prepare_next st p) = per_set_stats_p2 st \<or>
   per_set_stats_p2 (close_set_and_prepare_next st p) = per_set_stats_p2 st @ [PlayerStats0]"
  by (simp_all add: close_set_and_prepare_next_def Let_def start_new_set_keeps)

lemma keeps_stats_refl: "keeps_stats st st"
  by (simp add: keeps_stats_def)

lemma keeps_stats_close:
  assumes "match_stats_p1 a = match_stats_p1 st" "match_stats_p2 a = match_stats_p2 st"
    "log_entries a = log_entries st" "per_set_stats_p1 a = per_set_stats_p1 st"
    "per_set_stats_p2 a = per_set_stats_p2 st"
  shows "keeps_stats st (close_set_and_prepare_next a p)"
  using assms close_set_keeps [of a p] by (simp add: keeps_stats_def)

lemma give_point_regular_keeps: "keeps_stats st (give_point_regular st w)"
proof -
  define st1 where "st1 = (if w = 0 then st\<lparr>game_points_p1 := game_points_p1 st + 1\<rparr>
                 else st\<lparr>game_points_p2 := game_points_p2 st + 1\<rparr>)"
  define st2 where "st2 = award_game st1 (if game_points_p1 st1 > game_points_p2 st1 then 0 else 1)"
  define st3 where "st3 = (if \<not> in_match_tiebreak10 st2 \<and> check_enter_set_tiebreak st2
                       then let i = current_set_index st2
                            in st2\<lparr>in_set_tiebreak := True,
                                   sets := (sets st2)[i := (sets st2 ! i)\<lparr>set_tiebreak_played := True\<rparr>],
                                   tb_points_p1 := 0, tb_points_p2 := 0,
                                   tb_start_server := current_server st2\<rparr>
                       else st2)"
  have eq: "give_point_regular st w =
      (if game_points_p1 st1 \<ge> 4 \<or> game_points_p2 st1 \<ge> 4
       then (if \<bar>game_points_p1 st1 - game_points_p2 st1\<bar> \<ge> 2
         then (if \<not> in_set_tiebreak st3
             then (case set_is_won_now st3 of
                    Some set_winner \<Rightarrow> close_set_and_prepare_next st3 set_winner
                  | None \<Rightarrow> st3)
             else st3)
         else st1)
       else st1)"
    by (simp only: give_point_regular_def Let_def st1_def st2_def st3_def)
  have k1: "match_stats_p1 st1 = match_stats_p1 st" "match_stats_p2 st1 = match_stats_p2 st"
    "log_entries st1 = log_entries st" "per_set_stats_p1 st1 = per_set_stats_p1 st"
    "per_set_stats_p2 st1 = per_set_stats_p2 st"
    by (simp_all add: st1_def)
  have k3: "match_stats_p1 st3 = match_stats_p1 st" "match_stats_p2 st3 = match_stats_p2 st"
    "log_entries st3 = log_entries st" "per_set_stats_p1 st3 = per_set_stats_p1 st"
    "per_set_stats_p2 st3 = per_set_stats_p2 st"
    using k1 by (simp_all add: st3_def st2_def award_game_keeps Let_def)
  have a: "keeps_stats st st1" using k1 by (simp add: keeps_stats_def)
  have b: "keeps_stats st st3" using k3 by (simp add: keeps_stats_def)
  have c: "keeps_stats st (close_set_and_prepare_next st3 p)" for p
    using k3 by (rule keeps_stats_close)
  have d: "keeps_stats st (case set_is_won_now st3 of
                    Some set_winner \<Rightarrow> close_set_and_prepare_next st3 set_winner
                  | None \<Rightarrow> st3)"
    using b c by (simp split: option.splits)
  show ?thesis unfolding eq using a b d by (simp only: split: if_splits) blast
qed

lemma give_point_tiebreak_keeps: "keeps_stats st (give_point_tiebreak st w is_set_tb)"
proof -
  define st1 where "st1 = (if w = 0 then st\<lparr>tb_points_p1 := tb_points_p1 st + 1\<rparr>
                 else st\<lparr>tb_points_p2 := tb_points_p2 st + 1\<rparr>)"
  have k1: "match_stats_p1 st1 = match_stats_p1 st" "match_stats_p2 st1 = match_stats_p2 st"
    "log_entries st1 = log_entries st" "per_set_stats_p1 st1 = per_set_stats_p1 st"
    "per_set_stats_p2 st1 = per_set_stats_p2 st"
    by (simp_all add: st1_def)
  have a: "keeps_stats st st1" using k1 by (simp add: keeps_stats_def)
  have c: "keeps_stats st (close_set_and_prepare_next
          (st1\<lparr>sets := (sets st1)[current_set_index st1 := (sets st1 ! current_set_index st1)
                                  \<lparr>set_tb_points_p1 := tb_points_p1 st1,
                                   set_tb_points_p2 := tb_points_p2 st1\<rparr>],
                               in_set_tiebreak := False\<rparr>) p)" for p
    using k1 by (intro keeps_stats_close) simp_all
  show ?thesis
    unfolding give_point_tiebreak_def Let_def st1_def [symmetric]
    using a c k1 by (simp add: keeps_stats_def split: option.splits)
qed

lemma give_point_keeps: "keeps_stats st (give_point st w)"
  by (simp add: give_point_def give_point_regular_keeps give_point_tiebreak_keeps)

section \<open>Every exit of the point menus\<close>

lemma played_pointI:
  "stats_step 1 st mid \<Longrightarrow>
   played_point st (give_point (mid\<lparr>log_entries := log_entries mid @ [e]\<rparr>) w)"
  unfolding played_point_def by blast

lemma step_own0:
  "stats_step 0 st a \<Longrightarrow> (w = 0) \<noteq> (l = 0) \<Longrightarrow>
   stats_step 1 st (add_stats_point_ownership (match_ref w) (match_ref l) a)"
  using step_ownership [of 0 st a w l] by simp

lemma step_own0_rally:
  "stats_step 0 st a \<Longrightarrow>
   stats_step 1 st (add_stats_point_ownership (match_ref pw) (if pw = 0 then Match_p2 else Match_p1) a)"
  using step_ownership_rally [of 0 st a pw] by simp

lemma double_fault_played:
  assumes "stats_step 0 st a" "(rt = 0) \<noteq> (sv = 0)"
  shows "played_point st (double_fault e sv rt bp a)"
  unfolding double_fault_def Let_def
  by (rule played_pointI) (intro stats_steps step_own0 assms)

lemma ace_played:
  assumes "stats_step 0 st a" "(sv = 0) \<noteq> (rt = 0)"
  shows "played_point st (ace t e sv rt bp a)"
  unfolding ace_def Let_def
  by (rule played_pointI) (intro stats_steps step_own0 assms)

lemma service_winner_played:
  assumes "stats_step 0 st a" "(sv = 0) \<noteq> (rt = 0)"
  shows "played_point st (service_winner t e sv rt bp a)"
  unfolding service_winner_def Let_def
  by (rule played_pointI) (intro stats_steps step_own0 assms)

lemma return_winner_played:
  assumes "stats_step 0 st a" "(rt = 0) \<noteq> (sv = 0)"
  shows "played_point st (return_winner e sv rt bp a)"
  unfolding return_winner_def Let_def
  by (rule played_pointI) (intro stats_steps step_own0 assms)

lemma return_ue_played:
  assumes "stats_step 0 st a" "(sv = 0) \<noteq> (rt = 0)"
  shows "played_point st (return_ue e sv rt bp a)"
  unfolding return_ue_def Let_def
  by (rule played_pointI) (intro stats_steps step_own0 assms)

lemma return_fe_played:
  assumes "stats_step 0 st a" "(sv = 0) \<noteq> (rt = 0)"
  shows "played_point st (return_fe e sv rt bp a)"
  unfolding return_fe_def Let_def
  by (rule played_pointI) (intro stats_steps step_own0 assms)

lemma rally_choice_step:
  assumes "rally_choice a sv rt rv = Some (st1, desc, pw)" "stats_step k st a"
  shows "stats_step k st st1"
  using assms
  by (auto simp: rally_choice_def Let_def split: if_splits intro!: stats_steps)

lemma stats_step_if:
  "stats_step k st x \<Longrightarrow> stats_step k st y \<Longrightarrow> stats_step k st (if c then x else y)"
  by simp

lemma rally_finish_played:
  assumes "stats_step 0 st a"
  shows "played_point st (rally_finish e rt bp nm np desc pw a)"
proof -
  have o: "stats_step 1 st
            (add_stats_point_ownership (match_ref pw) (if pw = 0 then Match_p2 else Match_p1) a)"
    using assms by (rule step_own0_rally)
  show ?thesis
    unfolding rally_finish_def Let_def
    by (rule played_pointI) (intro stats_steps stats_step_if o)
qed

lemma rally_loop_played:
  "rally_loop e sv rt bp inp a = Some (st', inp') \<Longrightarrow> stats_step 0 st a \<Longrightarrow> played_point st st'"
proof (induction e sv rt bp inp a rule: rally_loop.induct)
  case (3 entry server returner was_bp rv netChoice inp a)
  from "3.prems" obtain net_player inp1 where rn: "read_net netChoice inp = Some (net_player, inp1)"
    by (auto split: option.splits)
  show ?case
  proof (cases "rally_choice a server returner rv")
    case None
    with "3.prems" rn have "rally_loop entry server returner was_bp inp1 a = Some (st', inp')"
      by simp
    with "3.IH" rn None "3.prems" show ?thesis by simp
  next
    case (Some r)
    obtain st1 desc pw where r: "r = (st1, desc, pw)" by (cases r)
    with "3.prems" rn Some
    have st': "st' = rally_finish entry returner was_bp (netChoice = 2) net_player desc pw st1"
      by simp
    from Some r "3.prems" have "stats_step 0 st st1" by (auto intro: rally_choice_step)
    then show ?thesis unfolding st' by (rule rally_finish_played)
  qed
qed simp_all

lemma return_loop_played:
  "return_loop e sv rt bp inp a = Some (st', inp') \<Longrightarrow> stats_step 0 st a \<Longrightarrow>
   (sv = 0) \<noteq> (rt = 0) \<Longrightarrow> played_point st st'"
proof (induction e sv rt bp inp a rule: return_loop.induct)
  case (1 entry server returner was_bp st)
  then show ?case by simp
next
  case (2 entry server returner was_bp r inp a)
  then show ?case
    by (auto split: if_splits
          intro: return_winner_played return_ue_played return_fe_played rally_loop_played)
qed

lemma serve_in_played:
  "serve_in t e sv rt bp inp a = Some (st', inp') \<Longrightarrow> stats_step 0 st a \<Longrightarrow>
   (sv = 0) \<noteq> (rt = 0) \<Longrightarrow> played_point st st'"
  unfolding serve_in_def Let_def
  by (erule return_loop_played) (auto intro!: stats_steps)

lemma serve_loop_exit:
  "serve_loop e sv rt bp inp st hist = Some (ex, (st', hist'), inp') \<Longrightarrow>
   (sv = 0) \<noteq> (rt = 0) \<Longrightarrow> exit_ok st hist ex st' hist'"
proof (induction e sv rt bp inp st hist rule: serve_loop.induct)
  case (1 entry server returner was_bp st hist)
  then show ?case by simp
next
  case (2 entry server returner was_bp c inp st hist)
  have refl0: "stats_step 0 st st" by (rule stats_step_refl) simp
  have ff: "stats_step 0 st (add_serve_attempt st server SERVE_FIRST False)"
    using refl0 by (rule step_add_serve_attempt)
  note rules = double_fault_played ace_played service_winner_played serve_in_played
  consider (admin) "c = 9" | (c1) "c = 1" | (c2) "c = 2" | (c3) "c = 3" | (c4) "c = 4"
    | (c5) "c = 5" | (c6) "c = 6" | (c7) "c = 7" | (c8) "c = 8"
    | (other) "c \<noteq> 9" "c \<noteq> 1" "c \<noteq> 2" "c \<noteq> 3" "c \<noteq> 4" "c \<noteq> 5" "c \<noteq> 6" "c \<noteq> 7" "c \<noteq> 8"
    by blast
  then show ?case
  proof cases
    case admin
    with "2.prems" "2.IH"(1,2) show ?thesis
      by (auto simp: exit_ok_def split: list.splits if_splits option.splits prod.splits)
  next
    case c1
    with "2.prems" refl0 show ?thesis
      by (auto simp: exit_ok_def played_def split: option.splits intro: rules)
  next
    case c2
    with "2.prems" ff show ?thesis
      by (auto simp: exit_ok_def played_def Let_def split: list.splits if_splits option.splits
            intro: rules)
  next
    case c3
    with "2.prems" refl0 show ?thesis
      by (auto simp: exit_ok_def played_def split: option.splits intro: rules)
  next
    case c4
    with "2.prems" refl0 show ?thesis by (auto simp: exit_ok_def intro: rules)
  next
    case c5
    with "2.prems" refl0 show ?thesis by (auto simp: exit_ok_def intro: rules)
  next
    case c6
    with "2.prems" refl0 show ?thesis by (auto simp: exit_ok_def intro: rules)
  next
    case c7
    with "2.prems" refl0 show ?thesis by (auto simp: exit_ok_def intro: rules)
  next
    case c8
    with "2.prems" refl0 show ?thesis by (auto simp: exit_ok_def intro: rules)
  next
    case other
    with "2.prems" "2.IH"(3) show ?thesis by simp
  qed
qed

section \<open>The invariant of the main loop\<close>

lemma same_score_refl: "same_score st st"
  by (simp add: same_score_def)

lemma same_score_trans: "same_score a b \<Longrightarrow> same_score b c \<Longrightarrow> same_score a c"
  by (simp add: same_score_def)

lemma same_score_compute: "same_score st (compute_tiebreak_server st)"
  by (simp add: same_score_def compute_tiebreak_server_def Let_def)

lemma same_score_enforce: "same_score st (enforce_tiebreak_server st)"
  by (simp add: enforce_tiebreak_server_def same_score_refl same_score_compute)

lemma same_score_ask:
  "ask_tb10_server inp st = Some (st1, inp1) \<Longrightarrow> same_score st st1"
  by (auto simp: ask_tb10_server_def Let_def same_score_def split: if_splits list.splits)

lemma same_score_in_play: "same_score st st2 \<Longrightarrow> in_play st2 = in_play st"
  by (simp add: same_score_def in_play_def wf_state_def match_is_over_now_def)

lemma same_score_tally: "same_score st st2 \<Longrightarrow> tally_inv st2 = tally_inv st"
  by (simp add: same_score_def tally_inv_def)

lemma record_point_and_stats_exit:
  assumes "record_point_and_stats inp st hist = Some (ex, (st', hist'), inp')"
  shows "exit_ok (enforce_tiebreak_server st) (st # hist) ex st' hist'"
proof -
  let ?sv = "current_server (enforce_tiebreak_server st)"
  have "(?sv = 0) \<noteq> ((if ?sv = 0 then 1 else 0 :: int) = 0)" by simp
  with assms show ?thesis
    unfolding record_point_and_stats_def Let_def push_history_def
    by (rule serve_loop_exit)
qed

lemma played_point_tally:
  assumes "played_point st st'" "tally_inv st"
  shows "tally_inv st'"
proof -
  from assms(1) obtain mid e w where m: "stats_step 1 st mid"
    and s: "st' = give_point (mid\<lparr>log_entries := log_entries mid @ [e]\<rparr>) w"
    unfolding played_point_def by blast
  have k: "keeps_stats (mid\<lparr>log_entries := log_entries mid @ [e]\<rparr>) st'"
    unfolding s by (rule give_point_keeps)
  from m assms(2) k show ?thesis
    by (simp add: tally_inv_def stats_step_def keeps_stats_def)
qed

lemma played_point_settled:
  assumes "played_point st st'" "in_play st"
  shows "settled st' \<or> (tb10_final st' \<and> current_set_index st' + 2 = length (sets st'))"
proof -
  from assms(1) obtain mid e w where m: "stats_step 1 st mid"
    and s: "st' = give_point (mid\<lparr>log_entries := log_entries mid @ [e]\<rparr>) w"
    unfolding played_point_def by blast
  from m have l1: "length (per_set_stats_p1 mid) = length (per_set_stats_p1 st)"
    unfolding stats_step_def by (metis length_map)
  from m have l2: "length (per_set_stats_p2 mid) = length (per_set_stats_p2 st)"
    unfolding stats_step_def by (metis length_map)
  from m assms(2) l1 l2 have "in_play (mid\<lparr>log_entries := log_entries mid @ [e]\<rparr>)"
    by (simp add: in_play_def wf_state_def match_is_over_now_def stats_step_def)
  then show ?thesis unfolding s by (rule give_point_settled)
qed

lemma main_init_in_play: "in_play (main_init p1 p2 loc sfirst fchoice)"
  by (simp add: main_init_def start_new_set_def MatchState0_def in_play_def wf_state_def
        match_is_over_now_def Let_def)

lemma main_init_tally: "tally_inv (main_init p1 p2 loc sfirst fchoice)"
  by (simp add: main_init_def start_new_set_def MatchState0_def tally_inv_def Let_def PlayerStats0_def)

text \<open>The ways one iteration of the main loop can go.\<close>

lemma main_loop_body_cases:
  assumes "main_loop_body inp st hist = Some ((st', hist'), d, inp')"
  obtains (point) st2 ex inp2 inp3 where "same_score st st2"
      "record_point_and_stats inp2 st2 hist = Some (ex, (st', hist'), inp3)"
      "d = match_is_over_now st'"
    | (same) "same_score st st'" "hist' = hist"
    | (undo) st2 ok where "same_score st st2" "pop_history st2 hist = (ok, st', hist')" "\<not> d"
proof -
  from assms obtain st1 inp1 where p: "ask_tb10_server inp st = Some (st1, inp1)"
    and mm: "main_menu inp1 (enforce_tiebreak_server st1) hist = Some ((st', hist'), d, inp')"
    unfolding main_loop_body_def by (auto split: option.splits)
  define st2 where "st2 = enforce_tiebreak_server st1"
  have s2: "same_score st st2"
    unfolding st2_def using same_score_ask [OF p] same_score_enforce [of st1]
    by (rule same_score_trans)
  from mm obtain m inp2 where i: "inp1 = m # inp2"
    unfolding main_menu_def by (auto split: list.splits)
  consider "m = 1" | "m = 2" | "m = 3" | "m = 4" | "m \<noteq> 1" "m \<noteq> 2" "m \<noteq> 3" "m \<noteq> 4"
    by blast
  then show thesis
  proof cases
    case 1
    with mm i obtain ex inp3 where
      "record_point_and_stats inp2 st2 hist = Some (ex, (st', hist'), inp3)"
      "d = match_is_over_now st'"
      unfolding main_menu_def st2_def
      by (auto split: option.splits if_splits list.splits)
    with s2 show ?thesis by (rule point)
  next
    case 2
    with mm i have "st' = st2" "hist' = hist"
      unfolding main_menu_def st2_def by (auto split: option.splits)
    with s2 show ?thesis by (auto intro: same)
  next
    case 3
    with mm i obtain ok where "pop_history st2 hist = (ok, st', hist')" "\<not> d"
      unfolding main_menu_def st2_def by (auto split: prod.splits)
    with s2 show ?thesis by (rule undo)
  next
    case 4
    with mm i have "st' = st2" "hist' = hist"
      unfolding main_menu_def st2_def by (auto split: list.splits)
    with s2 show ?thesis by (auto intro: same)
  next
    case 5
    with mm i have "st' = st2" "hist' = hist"
      unfolding main_menu_def st2_def by auto
    with s2 show ?thesis by (auto intro: same)
  qed
qed

lemma pop_history_inv:
  assumes "pop_history st hist = (ok, st', hist')" "tally_inv st" "in_play st"
    "\<forall>s \<in> set hist. tally_inv s \<and> in_play s"
  shows "tally_inv st' \<and> in_play st' \<and> (\<forall>s \<in> set hist'. tally_inv s \<and> in_play s)"
  using assms by (cases hist) auto

lemma reachable_world_inv: "reachable st hist d \<Longrightarrow> world_inv st hist d"
proof (induction rule: reachable.induct)
  case (start p1 p2 loc sfirst fchoice)
  show ?case by (simp add: world_inv_def main_init_in_play main_init_tally)
next
  case (step st hist inp st' hist' d inp')
  from step.IH have t: "tally_inv st" and w: "in_play st"
    and h: "\<forall>s \<in> set hist. tally_inv s \<and> in_play s"
    by (auto simp: world_inv_def)
  from step.hyps(2) show ?case
  proof (cases rule: main_loop_body_cases)
    case (point st2 ex inp2 inp3)
    from point(1) t w have t2: "tally_inv st2" and w2: "in_play st2"
      by (simp_all add: same_score_tally same_score_in_play)
    have ts: "tally_inv (enforce_tiebreak_server st2)"
      and ws: "in_play (enforce_tiebreak_server st2)"
      using t2 w2 same_score_enforce [of st2]
      by (simp_all add: same_score_tally same_score_in_play)
    have h2: "\<forall>s \<in> set (st2 # hist). tally_inv s \<and> in_play s"
      using h t2 w2 by simp
    from point(2) have e: "exit_ok (enforce_tiebreak_server st2) (st2 # hist) ex st' hist'"
      by (rule record_point_and_stats_exit)
    show ?thesis
    proof (cases ex)
      case PointPlayed
      with e have hh: "hist' = st2 # hist"
        and pp: "played_point (enforce_tiebreak_server st2) st'"
        by (simp_all add: exit_ok_def)
      from pp ts have ty: "tally_inv st'" by (rule played_point_tally)
      from pp ws have r: "settled st' \<or>
          (tb10_final st' \<and> current_set_index st' + 2 = length (sets st'))"
        by (rule played_point_settled)
      have "in_play st' \<or>
            (d \<and> (settled st' \<or>
                  (tb10_final st' \<and> current_set_index st' + 2 = length (sets st'))))"
      proof (cases d)
        case True
        with r show ?thesis by simp
      next
        case False
        with point(3) have "\<not> match_is_over_now st'" by simp
        with r have "in_play st'" by (auto simp: in_play_def settled_def tb10_final_def)
        then show ?thesis ..
      qed
      with ty hh h2 show ?thesis by (simp add: world_inv_def)
    next
      case AdminUndo
      with e obtain ok where "pop_history st2 hist = (ok, st', hist')"
        by (auto simp: exit_ok_def split: prod.splits)
      from pop_history_inv [OF this t2 w2 h] show ?thesis by (simp add: world_inv_def)
    next
      case AdminEnd
      with e have "st' = st2" "hist' = hist" by (simp_all add: exit_ok_def)
      with t2 w2 h show ?thesis by (simp add: world_inv_def)
    qed
  next
    case same
    with t w h show ?thesis
      by (simp add: world_inv_def same_score_tally same_score_in_play)
  next
    case (undo st2 ok)
    from undo(1) t w have t2: "tally_inv st2" and w2: "in_play st2"
      by (simp_all add: same_score_tally same_score_in_play)
    from pop_history_inv [OF undo(2) t2 w2 h] show ?thesis by (simp add: world_inv_def)
  qed
qed

text \<open>
  In every state at the head of the main loop the current set exists, with its two
  statistics blocks, and the current game has not been won yet.
\<close>

lemma reachable_in_progress:
  assumes "reachable st hist False"
  shows "current_set_index st < length (sets st)"
    and "current_set_index st < length (per_set_stats_p1 st)"
    and "current_set_index st < length (per_set_stats_p2 st)"
    and "\<not> ((game_points_p1 st \<ge> 4 \<or> game_points_p2 st \<ge> 4)
           \<and> \<bar>game_points_p1 st - game_points_p2 st\<bar> \<ge> 2)"
    and "\<not> (in_set_tiebreak st \<and> in_match_tiebreak10 st)"
  using reachable_world_inv [OF assms] by (simp_all add: world_inv_def in_play_def wf_state_def)

section \<open>Winning a game, closing a set\<close>

lemma close_set_at:
  assumes "current_set_index a < length (sets a)"
  shows "games_player1 (sets (close_set_and_prepare_next a p) ! current_set_index a)
           = games_player1 (sets a ! current_set_index a)"
    and "games_player2 (sets (close_set_and_prepare_next a p) ! current_set_index a)
           = games_player2 (sets a ! current_set_index a)"
    and "current_server (close_set_and_prepare_next a p) = current_server a"
    and "game_points_p1 a = 0 \<Longrightarrow> game_points_p1 (close_set_and_prepare_next a p) = 0"
    and "game_points_p2 a = 0 \<Longrightarrow> game_points_p2 (close_set_and_prepare_next a p) = 0"
  using assms
  by (simp_all add: close_set_and_prepare_next_def start_new_set_def Let_def nth_append)

text \<open>
  Claim C5. Let the game be undecided before the point (as it is in every state of a
  match in progress, see \<open>wf_state\<close>). After \<^verbatim>\<open>give_point_regular\<close> has given the
  point to \<open>w\<close>, the game is won exactly when the winner's raw count is at least 4 and at
  least 2 above the opponent's. Then the winner's games in the current set have grown by
  one (the opponent's are unchanged), the server has flipped and both point counters are
  0; otherwise only the winner's point counter has grown by one.
\<close>

theorem give_point_regular_game:
  assumes op: "\<not> ((game_points_p1 st \<ge> 4 \<or> game_points_p2 st \<ge> 4)
               \<and> \<bar>game_points_p1 st - game_points_p2 st\<bar> \<ge> 2)"
    and idx: "current_set_index st < length (sets st)"
  shows "let mine = (if w = 0 then game_points_p1 st else game_points_p2 st) + 1;
             theirs = (if w = 0 then game_points_p2 st else game_points_p1 st);
             i = current_set_index st;
             st' = give_point_regular st w
         in if mine \<ge> 4 \<and> mine - theirs \<ge> 2
            then (if w = 0
                  then games_player1 (sets st' ! i) = games_player1 (sets st ! i) + 1 \<and>
                       games_player2 (sets st' ! i) = games_player2 (sets st ! i)
                  else games_player2 (sets st' ! i) = games_player2 (sets st ! i) + 1 \<and>
                       games_player1 (sets st' ! i) = games_player1 (sets st ! i))
                 \<and> current_server st' = (if current_server st = 0 then 1 else 0)
                 \<and> game_points_p1 st' = 0 \<and> game_points_p2 st' = 0
            else sets st' = sets st \<and> current_server st' = current_server st
                 \<and> (if w = 0
                     then game_points_p1 st' = game_points_p1 st + 1 \<and>
                          game_points_p2 st' = game_points_p2 st
                     else game_points_p2 st' = game_points_p2 st + 1 \<and>
                          game_points_p1 st' = game_points_p1 st)"
proof -
  define i where "i = current_set_index st"
  define st1 where "st1 = (if w = 0 then st\<lparr>game_points_p1 := game_points_p1 st + 1\<rparr>
                 else st\<lparr>game_points_p2 := game_points_p2 st + 1\<rparr>)"
  define gw :: int where "gw = (if game_points_p1 st1 > game_points_p2 st1 then 0 else 1)"
  define st2 where "st2 = award_game st1 gw"
  define st3 where "st3 = (if \<not> in_match_tiebreak10 st2 \<and> check_enter_set_tiebreak st2
                       then let i = current_set_index st2
                            in st2\<lparr>in_set_tiebreak := True,
                                   sets := (sets st2)[i := (sets st2 ! i)\<lparr>set_tiebreak_played := True\<rparr>],
                                   tb_points_p1 := 0, tb_points_p2 := 0,
                                   tb_start_server := current_server st2\<rparr>
                       else st2)"
  define st4 where "st4 = (if \<not> in_set_tiebreak st3
             then (case set_is_won_now st3 of
                    Some set_winner \<Rightarrow> close_set_and_prepare_next st3 set_winner
                  | None \<Rightarrow> st3)
             else st3)"
  define won where "won \<longleftrightarrow> (game_points_p1 st1 \<ge> 4 \<or> game_points_p2 st1 \<ge> 4)
                       \<and> \<bar>game_points_p1 st1 - game_points_p2 st1\<bar> \<ge> 2"
  have eq: "give_point_regular st w =
      (if game_points_p1 st1 \<ge> 4 \<or> game_points_p2 st1 \<ge> 4
       then (if \<bar>game_points_p1 st1 - game_points_p2 st1\<bar> \<ge> 2 then st4 else st1)
       else st1)"
    by (simp only: give_point_regular_def Let_def st1_def st2_def st3_def st4_def gw_def)
  have eq': "give_point_regular st w = (if won then st4 else st1)"
    unfolding eq won_def by simp
  have p1: "game_points_p1 st1 = (if w = 0 then game_points_p1 st + 1 else game_points_p1 st)"
    and p2: "game_points_p2 st1 = (if w = 0 then game_points_p2 st else game_points_p2 st + 1)"
    and s1: "sets st1 = sets st" "current_server st1 = current_server st"
      "current_set_index st1 = i"
    by (simp_all add: st1_def i_def)
  have won_iff: "won \<longleftrightarrow>
      (if w = 0 then game_points_p1 st else game_points_p2 st) + 1 \<ge> 4 \<and>
      (if w = 0 then game_points_p1 st else game_points_p2 st) + 1
        - (if w = 0 then game_points_p2 st else game_points_p1 st) \<ge> 2"
    unfolding won_def p1 p2 using op by (cases "w = 0") (simp_all, linarith+)
  have gw: "won \<Longrightarrow> gw = (if w = 0 then 0 else 1)"
    unfolding gw_def won_def p1 p2 using op by (cases "w = 0") (simp_all, linarith+)
  have i2: "current_set_index st2 = i" "i < length (sets st2)"
    and g2: "games_player1 (sets st2 ! i) = games_player1 (sets st ! i) + (if gw = 0 then 1 else 0)"
      "games_player2 (sets st2 ! i) = games_player2 (sets st ! i) + (if gw = 0 then 0 else 1)"
    and c2: "current_server st2 = (if current_server st = 0 then 1 else 0)"
      "game_points_p1 st2 = 0" "game_points_p2 st2 = 0"
    using idx by (simp_all add: st2_def award_game_def Let_def s1 i_def [symmetric])
  have i3: "current_set_index st3 = i" "i < length (sets st3)"
    and g3: "games_player1 (sets st3 ! i) = games_player1 (sets st2 ! i)"
      "games_player2 (sets st3 ! i) = games_player2 (sets st2 ! i)"
    and c3: "current_server st3 = current_server st2"
      "game_points_p1 st3 = 0" "game_points_p2 st3 = 0"
    using i2 c2 by (simp_all add: st3_def Let_def)
  have cl: "games_player1 (sets (close_set_and_prepare_next st3 p) ! i) = games_player1 (sets st3 ! i)"
      "games_player2 (sets (close_set_and_prepare_next st3 p) ! i) = games_player2 (sets st3 ! i)"
      "current_server (close_set_and_prepare_next st3 p) = current_server st3"
      "game_points_p1 (close_set_and_prepare_next st3 p) = 0"
      "game_points_p2 (close_set_and_prepare_next st3 p) = 0" for p
    using close_set_at [of st3 p] i3 c3 by simp_all
  have g4: "games_player1 (sets st4 ! i) = games_player1 (sets st3 ! i)"
      "games_player2 (sets st4 ! i) = games_player2 (sets st3 ! i)"
      "current_server st4 = current_server st3"
      "game_points_p1 st4 = 0" "game_points_p2 st4 = 0"
    unfolding st4_def using cl c3 by (simp_all split: option.splits)
  show ?thesis
  proof (cases won)
    case True
    with eq' have r: "give_point_regular st w = st4" by simp
    from True won_iff show ?thesis
      unfolding Let_def r i_def [symmetric]
      by (cases "w = 0") (simp_all add: g4 g3 g2 c3 c2 gw [OF True])
  next
    case False
    with eq' have r: "give_point_regular st w = st1" by simp
    from False won_iff show ?thesis
      unfolding Let_def r by (cases "w = 0") (simp_all add: s1 p1 p2)
  qed
qed

text \<open>
  Claim C6. \<^verbatim>\<open>close_set_and_prepare_next\<close>, called outside the match tiebreak (the only
  way a set closes), marks the current set finished and credits the set. If the match is
  decided, no set is added and no tiebreak mode changes. Otherwise, with two set records,
  one set each and the tiebreak-10 decider, the match tiebreak starts at 0-0 and no set is
  added; in every other case a fresh set record and fresh statistics blocks are appended,
  the new set is current, game and tiebreak points are 0 and both tiebreak flags are off.
\<close>

theorem close_set_and_prepare_next_cases:
  assumes idx: "current_set_index st < length (sets st)"
    and ntb: "\<not> in_match_tiebreak10 st"
  shows "let won1 = sets_won_p1 st + (if w = 0 then 1 else 0);
             won2 = sets_won_p2 st + (if w = 0 then 0 else 1);
             decided = (won1 = sets_to_win st \<or> won2 = sets_to_win st);
             st' = close_set_and_prepare_next st w
         in set_finished (sets st' ! current_set_index st) \<and>
            sets_won_p1 st' = won1 \<and> sets_won_p2 st' = won2 \<and>
            (if decided
             then length (sets st') = length (sets st) \<and>
                  current_set_index st' = current_set_index st \<and>
                  \<not> in_match_tiebreak10 st' \<and>
                  in_set_tiebreak st' = in_set_tiebreak st \<and>
                  tb_points_p1 st' = tb_points_p1 st \<and> tb_points_p2 st' = tb_points_p2 st \<and>
                  game_points_p1 st' = game_points_p1 st \<and> game_points_p2 st' = game_points_p2 st
             else if length (sets st) = 2 \<and> won1 = 1 \<and> won2 = 1 \<and>
                     deciding (format st) = DECIDING_TB10
             then in_match_tiebreak10 st' \<and> tb_points_p1 st' = 0 \<and> tb_points_p2 st' = 0 \<and>
                  length (sets st') = length (sets st) \<and>
                  current_set_index st' = current_set_index st
             else length (sets st') = length (sets st) + 1 \<and>
                  last (sets st') = SetScore0 \<and>
                  current_set_index st' = length (sets st) \<and>
                  per_set_stats_p1 st' = per_set_stats_p1 st @ [PlayerStats0] \<and>
                  per_set_stats_p2 st' = per_set_stats_p2 st @ [PlayerStats0] \<and>
                  game_points_p1 st' = 0 \<and> game_points_p2 st' = 0 \<and>
                  tb_points_p1 st' = 0 \<and> tb_points_p2 st' = 0 \<and>
                  \<not> in_set_tiebreak st' \<and> \<not> in_match_tiebreak10 st')"
  using assms
  by (simp add: close_set_and_prepare_next_def start_new_set_def Let_def nth_append)


lemma game_example_facts:
  "game_points_p1 game_example = 3" "game_points_p2 game_example = 0"
  "current_set_index game_example = 0" "length (sets game_example) = 1"
  "games_player1 (sets game_example ! 0) = 0" "current_server game_example = 0"
  by code_simp+

theorem give_point_regular_game_witness:
  "\<not> ((game_points_p1 game_example \<ge> 4 \<or> game_points_p2 game_example \<ge> 4)
      \<and> \<bar>game_points_p1 game_example - game_points_p2 game_example\<bar> \<ge> 2) \<and>
   current_set_index game_example < length (sets game_example) \<and>
   games_player1 (sets (give_point_regular game_example 0) ! 0) = 1 \<and>
   current_server (give_point_regular game_example 0) = 1 \<and>
   game_points_p1 (give_point_regular game_example 0) = 0 \<and>
   game_points_p2 (give_point_regular game_example 0) = 0"
proof -
  have h1: "\<not> ((game_points_p1 game_example \<ge> 4 \<or> game_points_p2 game_example \<ge> 4)
      \<and> \<bar>game_points_p1 game_example - game_points_p2 game_example\<bar> \<ge> 2)"
    by (simp add: game_example_facts)
  have h2: "current_set_index game_example < length (sets game_example)"
    by (simp add: game_example_facts)
  show ?thesis
    using give_point_regular_game [OF h1 h2, of 0] h1 h2
    by (simp add: Let_def game_example_facts)
qed

lemma tb10_entry_example_facts:
  "current_set_index tb10_entry_example = 1" "length (sets tb10_entry_example) = 2"
  "in_match_tiebreak10 tb10_entry_example = False"
  "sets_won_p1 tb10_entry_example = 1" "sets_won_p2 tb10_entry_example = 0"
  "sets_to_win tb10_entry_example = 2"
  "deciding (format tb10_entry_example) = DECIDING_TB10"
  by code_simp+

theorem close_set_and_prepare_next_cases_witness:
  "current_set_index tb10_entry_example < length (sets tb10_entry_example) \<and>
   \<not> in_match_tiebreak10 tb10_entry_example \<and>
   set_finished (sets (close_set_and_prepare_next tb10_entry_example 1) ! 1) \<and>
   in_match_tiebreak10 (close_set_and_prepare_next tb10_entry_example 1) \<and>
   tb_points_p1 (close_set_and_prepare_next tb10_entry_example 1) = 0 \<and>
   tb_points_p2 (close_set_and_prepare_next tb10_entry_example 1) = 0 \<and>
   length (sets (close_set_and_prepare_next tb10_entry_example 1)) = 2"
proof -
  have h1: "current_set_index tb10_entry_example < length (sets tb10_entry_example)"
    by (simp add: tb10_entry_example_facts)
  have h2: "\<not> in_match_tiebreak10 tb10_entry_example"
    by (simp add: tb10_entry_example_facts)
  show ?thesis
    using close_set_and_prepare_next_cases [OF h1 h2, of 1] h1 h2
    by (simp add: Let_def tb10_entry_example_facts)
qed

section \<open>Tiebreak serve rotation\<close>

lemma smod4: "0 \<le> (k::int) \<Longrightarrow> k smod 4 = k mod 4"
  by (simp add: smod_int_alt_def sgn_if)

text \<open>
  Claim C2. With \<open>i\<close> tiebreak points already played, \<^verbatim>\<open>compute_tiebreak_server\<close>
  makes the tiebreak's start server serve exactly when \<open>i mod 4\<close> is 0 or 3, and the
  other player otherwise; with player 0 starting, the first twelve servers are
  0,1,1,0,0,1,1,0,0,1,1,0.
\<close>

theorem tiebreak_server_pattern:
  assumes "tb_points_p1 st + tb_points_p2 st = int i"
  shows "(current_server (compute_tiebreak_server st) = tb_start_server st
            \<longleftrightarrow> i mod 4 = 0 \<or> i mod 4 = 3)
         \<and> (i mod 4 \<noteq> 0 \<and> i mod 4 \<noteq> 3 \<and> tb_start_server st \<in> {0, 1}
              \<longrightarrow> current_server (compute_tiebreak_server st) = 1 - tb_start_server st)
         \<and> (tb_start_server st = 0 \<and> i < 12
              \<longrightarrow> current_server (compute_tiebreak_server st)
                    = [0, 1, 1, 0, 0, 1, 1, 0, 0, 1, 1, 0] ! i)"
proof -
  have m: "(tb_points_p1 st + tb_points_p2 st) smod 4 = int (i mod 4)"
    using assms by (simp add: smod4 zmod_int)
  have r: "i mod 4 = 0 \<or> i mod 4 = 1 \<or> i mod 4 = 2 \<or> i mod 4 = 3" by arith
  have a: "(current_server (compute_tiebreak_server st) = tb_start_server st
            \<longleftrightarrow> i mod 4 = 0 \<or> i mod 4 = 3)"
    using r by (auto simp: compute_tiebreak_server_def Let_def m)
  have b: "i mod 4 \<noteq> 0 \<and> i mod 4 \<noteq> 3 \<and> tb_start_server st \<in> {0, 1}
              \<longrightarrow> current_server (compute_tiebreak_server st) = 1 - tb_start_server st"
    using r by (auto simp: compute_tiebreak_server_def Let_def m)
  have c: "tb_start_server st = 0 \<and> i < 12
              \<longrightarrow> current_server (compute_tiebreak_server st)
                    = [0, 1, 1, 0, 0, 1, 1, 0, 0, 1, 1, 0] ! i"
  proof
    assume h: "tb_start_server st = 0 \<and> i < 12"
    then have "i \<in> {0,1,2,3,4,5,6,7,8,9,10,11}" by simp arith
    then show "current_server (compute_tiebreak_server st)
                    = [0, 1, 1, 0, 0, 1, 1, 0, 0, 1, 1, 0] ! i"
      using h by (auto simp: compute_tiebreak_server_def Let_def m)
  qed
  from a b c show ?thesis by blast
qed

theorem tiebreak_server_pattern_witness:
  "tb_points_p1 tb_example + tb_points_p2 tb_example = int 5
   \<and> (5::nat) mod 4 \<noteq> 0 \<and> (5::nat) mod 4 \<noteq> 3 \<and> tb_start_server tb_example \<in> {0, 1}
   \<and> tb_start_server tb_example = 0 \<and> (5::nat) < 12
   \<and> current_server (compute_tiebreak_server tb_example) = 1"
proof -
  have h: "tb_points_p1 tb_example + tb_points_p2 tb_example = int 5"
    by (simp add: tb_example_def MatchState0_def)
  show ?thesis
    using h tiebreak_server_pattern [OF h]
    by (simp add: tb_example_def MatchState0_def)
qed

section \<open>Game point\<close>

text \<open>
  \<^verbatim>\<open>is_game_point_for\<close> on all integers. Its "40 against less than 40" branch asks
  for exactly 3 points, so a count such as 4-2, at which the game is already won and
  which the program never passes, gives false.
\<close>

lemma is_game_point_for_exact:
  "is_game_point_for leaderPoints trailerPoints \<longleftrightarrow>
     leaderPoints \<ge> 3 \<and>
     ((leaderPoints = 3 \<and> trailerPoints \<le> 2) \<or> leaderPoints = trailerPoints + 1)"
  by (auto simp: is_game_point_for_def)

text \<open>
  Claim C7. For the raw point counts of a game in progress, that is, when neither
  player has already won the game (at least 4 points and 2 ahead), the game-point
  predicate is true exactly when the leader has at least 3 points and either the trailer
  has at most 2 or the leader is exactly one point ahead. The counts need not be
  assumed non-negative.
\<close>

theorem is_game_point_for_in_progress:
  assumes "\<not> ((leaderPoints \<ge> 4 \<or> trailerPoints \<ge> 4)
             \<and> \<bar>leaderPoints - trailerPoints\<bar> \<ge> 2)"
  shows "is_game_point_for leaderPoints trailerPoints \<longleftrightarrow>
           leaderPoints \<ge> 3 \<and> (trailerPoints \<le> 2 \<or> leaderPoints = trailerPoints + 1)"
  using assms by (auto simp: is_game_point_for_def)

theorem is_game_point_for_in_progress_witness:
  "\<not> (((4::int) \<ge> 4 \<or> (3::int) \<ge> 4) \<and> \<bar>(4::int) - 3\<bar> \<ge> 2) \<and>
   is_game_point_for 4 3 \<and> (4::int) \<ge> 3 \<and> \<not> (3::int) \<le> 2 \<and> (4::int) = 3 + 1"
proof -
  have h: "\<not> (((4::int) \<ge> 4 \<or> (3::int) \<ge> 4) \<and> \<bar>(4::int) - 3\<bar> \<ge> 2)" by simp
  show ?thesis using is_game_point_for_in_progress [OF h] by simp
qed

text \<open>
  The program only asks about the points of the current game, in either order, and in
  every state at the head of the main loop that game is in progress.
\<close>

lemma reachable_game_point:
  assumes "reachable st hist False"
  shows "is_game_point_for (game_points_p1 st) (game_points_p2 st) \<longleftrightarrow>
           game_points_p1 st \<ge> 3 \<and>
           (game_points_p2 st \<le> 2 \<or> game_points_p1 st = game_points_p2 st + 1)"
    and "is_game_point_for (game_points_p2 st) (game_points_p1 st) \<longleftrightarrow>
           game_points_p2 st \<ge> 3 \<and>
           (game_points_p1 st \<le> 2 \<or> game_points_p2 st = game_points_p1 st + 1)"
  using reachable_in_progress(4) [OF assms] by (auto simp: is_game_point_for_def)

section \<open>Undo\<close>

text \<open>
  Claim C9. \<^verbatim>\<open>pop_history\<close> returns false exactly when the history stack is empty,
  and then it leaves the match state (and the empty stack) as they were.
\<close>

theorem undo_fails_iff_history_empty:
  "(\<not> fst (pop_history st hist)) = (hist = []) \<and> pop_history st [] = (False, st, [])"
  by (cases hist) auto

section \<open>Example runs\<close>

lemma ace_example_record:
  "record_point_and_stats [5] init_example [] =
     Some (PointPlayed, (after_ace_example, [init_example]), [])"
  by code_simp

lemma ace_example_step:
  "main_loop_body [1, 5] init_example [] = Some ((after_ace_example, [init_example]), False, [])"
  by code_simp

lemma ace_example_reachable: "reachable after_ace_example [init_example] False"
proof -
  have "reachable init_example [] False"
    unfolding init_example_def by (rule reachable.start)
  then show ?thesis using ace_example_step by (rule reachable.step)
qed

lemma ace_example_counts:
  "points_won (match_stats_p1 after_ace_example) = 1"
  "points_won (match_stats_p2 after_ace_example) = 0"
  "points_played (match_stats_p1 after_ace_example) = 1"
  "points_played (match_stats_p2 after_ace_example) = 1"
  "length (log_entries after_ace_example) = 1"
  "points_won (per_set_stats_p1 after_ace_example ! 0) = 0"
  "points_played (per_set_stats_p1 after_ace_example ! 0) = 0"
  "points_played (per_set_stats_p2 after_ace_example ! 0) = 0"
  by code_simp+

lemma main_loop_reachable:
  "reachable st hist False \<Longrightarrow> main_loop inp st hist = Some ((st', hist'), d) \<Longrightarrow>
   reachable st' hist' d"
proof (induction inp st hist rule: main_loop.induct)
  case (1 st hist)
  then show ?case by simp
next
  case (2 m inp st hist)
  from "2.prems"(2) obtain st1 hist1 d1 inp1 where
    b: "main_loop_body (m # inp) st hist = Some ((st1, hist1), d1, inp1)"
    by (auto split: option.splits)
  from "2.prems"(1) b have r1: "reachable st1 hist1 d1" by (rule reachable.step)
  show ?case
  proof (cases d1)
    case True
    with "2.prems"(2) b r1 show ?thesis by simp
  next
    case False
    with "2.prems"(2) b have "main_loop inp1 st1 hist1 = Some ((st', hist'), d)" by simp
    with "2.IH" [OF b refl refl refl False] r1 False show ?thesis by simp
  qed
qed

lemma tb10_decided_shape: "shape tb10_decided = Some (1, 3, True, True)"
  by code_simp

lemma tb10_decided_eq:
  "tb10_decided = Some ((tb10_decided_state, tb10_decided_history), True)"
proof (cases tb10_decided)
  case None
  with tb10_decided_shape show ?thesis by (simp add: shape_def)
next
  case (Some r)
  obtain st h d where r: "r = ((st, h), d)" by (metis prod.collapse)
  have "shape (Some ((st, h), d)) = Some (1, 3, True, True)"
    using tb10_decided_shape unfolding Some r .
  then have d: "d = True" by (simp add: shape_def)
  have s: "tb10_decided_state = st" unfolding tb10_decided_state_def Some r by simp
  have hh: "tb10_decided_history = h" unfolding tb10_decided_history_def Some r by simp
  show ?thesis unfolding s hh Some r using d by simp
qed

lemma tb10_decided_reachable: "reachable tb10_decided_state tb10_decided_history True"
proof -
  have "reachable (main_init ''A'' ''B'' ''Court 1'' 1 2) [] False" by (rule reachable.start)
  then show ?thesis
    using tb10_decided_eq [unfolded tb10_decided_def] by (rule main_loop_reachable)
qed

lemma tb10_decided_facts:
  "current_set_index tb10_decided_state = 1" "length (sets tb10_decided_state) = 3"
  "tb10_final tb10_decided_state"
proof -
  have "shape (Some ((tb10_decided_state, tb10_decided_history), True)) = Some (1, 3, True, True)"
    using tb10_decided_shape unfolding tb10_decided_eq .
  then show "current_set_index tb10_decided_state = 1" "length (sets tb10_decided_state) = 3"
    "tb10_final tb10_decided_state"
    by (simp_all add: shape_def)
qed

section \<open>Points won, points played and the log\<close>

text \<open>
  Claim C1. In every state the program reaches, whatever is typed (points, undo, the
  statistics menus), the match totals satisfy: points won by player 1 plus points won by
  player 2 is the number of log entries, and each player's points played is the number
  of log entries.
\<close>

theorem points_tally:
  "reachable st hist d \<Longrightarrow>
   points_won (match_stats_p1 st) + points_won (match_stats_p2 st) = int (length (log_entries st)) \<and>
   points_played (match_stats_p1 st) = int (length (log_entries st)) \<and>
   points_played (match_stats_p2 st) = int (length (log_entries st))"
  by (drule reachable_world_inv) (simp add: world_inv_def tally_inv_def)

theorem points_tally_witness:
  "reachable after_ace_example [init_example] False \<and>
   length (log_entries after_ace_example) = 1 \<and>
   points_won (match_stats_p1 after_ace_example) + points_won (match_stats_p2 after_ace_example) = 1 \<and>
   points_played (match_stats_p1 after_ace_example) = 1 \<and>
   points_played (match_stats_p2 after_ace_example) = 1"
  using points_tally [OF ace_example_reachable] ace_example_reachable
  by (simp add: ace_example_counts)

section \<open>Undo after a point\<close>

text \<open>
  Claim C3. When \<^verbatim>\<open>record_point_and_stats\<close> has played a point from state \<open>st\<close> with
  history \<open>hist\<close>, one \<^verbatim>\<open>pop_history\<close> (whatever the live state has become) gives back
  exactly \<open>st\<close> and \<open>hist\<close>; and so does the next iteration of the main loop when "3"
  (undo last point) is typed, after the answer to the first-server prompt where the
  match tiebreak is about to start.
\<close>

theorem undo_restores_state:
  assumes "record_point_and_stats inp st hist = Some (PointPlayed, (st', hist'), inp')"
  shows "pop_history live hist' = (True, st, hist) \<and>
         main_loop_body
           ((if in_match_tiebreak10 st' \<and> tb_points_p1 st' = 0 \<and> tb_points_p2 st' = 0
             then [tbsv] else []) @ 3 # rest) st' hist'
           = Some ((st, hist), False, rest)"
proof -
  from assms have "exit_ok (enforce_tiebreak_server st) (st # hist) PointPlayed st' hist'"
    by (rule record_point_and_stats_exit)
  then have h: "hist' = st # hist" by (simp add: exit_ok_def)
  show ?thesis
    unfolding h
    by (simp add: main_loop_body_def ask_tb10_server_def main_menu_def Let_def)
qed

theorem undo_restores_state_witness:
  "record_point_and_stats [5] init_example [] =
     Some (PointPlayed, (after_ace_example, [init_example]), []) \<and>
   pop_history after_ace_example [init_example] = (True, init_example, []) \<and>
   main_loop_body [3] after_ace_example [init_example] = Some ((init_example, []), False, [])"
proof -
  have n: "\<not> in_match_tiebreak10 after_ace_example" by code_simp
  show ?thesis
    using undo_restores_state [OF ace_example_record, of after_ace_example 0 "[]"] n
      ace_example_record
    by simp
qed

section \<open>Per-set totals of points\<close>

text \<open>
  \<^verbatim>\<open>add_stats_point_ownership\<close> is only ever applied to the two match totals: no
  played point changes the points won or the points played of any per-set block.
\<close>

lemma per_set_totals_never_change:
  assumes "record_point_and_stats inp st hist = Some (PointPlayed, (st', hist'), inp')"
    and "i < length (per_set_stats_p1 st)" and "j < length (per_set_stats_p2 st)"
  shows "points_won (per_set_stats_p1 st' ! i) = points_won (per_set_stats_p1 st ! i) \<and>
         points_played (per_set_stats_p1 st' ! i) = points_played (per_set_stats_p1 st ! i) \<and>
         points_won (per_set_stats_p2 st' ! j) = points_won (per_set_stats_p2 st ! j) \<and>
         points_played (per_set_stats_p2 st' ! j) = points_played (per_set_stats_p2 st ! j)"
proof -
  define st1 where "st1 = enforce_tiebreak_server st"
  from assms(1) have "exit_ok st1 (st # hist) PointPlayed st' hist'"
    unfolding st1_def by (rule record_point_and_stats_exit)
  then obtain mid e w where m: "stats_step 1 st1 mid"
    and s: "st' = give_point (mid\<lparr>log_entries := log_entries mid @ [e]\<rparr>) w"
    unfolding exit_ok_def played_point_def by auto
  have ss: "same_score st st1" unfolding st1_def by (rule same_score_enforce)
  have k: "keeps_stats (mid\<lparr>log_entries := log_entries mid @ [e]\<rparr>) st'"
    unfolding s by (rule give_point_keeps)
  have eqmap: "f (xs ! n) = f (ys ! n)" if "map f xs = map f ys" "n < length ys"
    for f :: "PlayerStats \<Rightarrow> int" and xs ys n
    using that by (metis length_map nth_map)
  from m ss have
    a1: "map points_won (per_set_stats_p1 mid) = map points_won (per_set_stats_p1 st)" and
    a2: "map points_played (per_set_stats_p1 mid) = map points_played (per_set_stats_p1 st)" and
    a3: "map points_won (per_set_stats_p2 mid) = map points_won (per_set_stats_p2 st)" and
    a4: "map points_played (per_set_stats_p2 mid) = map points_played (per_set_stats_p2 st)"
    by (simp_all add: stats_step_def same_score_def)
  have l1: "length (per_set_stats_p1 mid) = length (per_set_stats_p1 st)"
    using a1 by (metis length_map)
  have l2: "length (per_set_stats_p2 mid) = length (per_set_stats_p2 st)"
    using a3 by (metis length_map)
  have n1: "per_set_stats_p1 st' ! i = per_set_stats_p1 mid ! i"
    using k assms(2) l1 by (auto simp: keeps_stats_def nth_append)
  have n2: "per_set_stats_p2 st' ! j = per_set_stats_p2 mid ! j"
    using k assms(3) l2 by (auto simp: keeps_stats_def nth_append)
  show ?thesis
    unfolding n1 n2
    using eqmap [OF a1 assms(2)] eqmap [OF a2 assms(2)] eqmap [OF a3 assms(3)]
      eqmap [OF a4 assms(3)]
    by simp
qed

text \<open>
  Claim C4, evaluated. After the first point of a match, an ace by player 1, the match
  totals count the point (won 1, played 1 and 1) and the blocks of the current set, set
  0, still show 0 points won and 0 points played for both players.
\<close>

theorem per_set_points_not_counted:
  "main_loop [1, 5] init_example [] = Some ((after_ace_example, [init_example]), False) \<and>
   current_set_index after_ace_example = 0 \<and>
   points_won (match_stats_p1 after_ace_example) = 1 \<and>
   points_played (match_stats_p1 after_ace_example) = 1 \<and>
   points_played (match_stats_p2 after_ace_example) = 1 \<and>
   points_won (per_set_stats_p1 after_ace_example ! 0) = 0 \<and>
   points_played (per_set_stats_p1 after_ace_example ! 0) = 0 \<and>
   points_played (per_set_stats_p2 after_ace_example ! 0) = 0"
proof -
  have "main_loop [1, 5] init_example [] = Some ((after_ace_example, [init_example]), False)"
    by (simp add: ace_example_step)
  moreover have "current_set_index after_ace_example = 0" by code_simp
  ultimately show ?thesis by (simp add: ace_example_counts)
qed

section \<open>The index of the current set\<close>

text \<open>
  Claim C8, as the code has it. In every state the program reaches, the current set
  index is the index of the last set record, except in the final state of a match that
  the match tiebreak-10 has decided (recognised by \<open>tb10_final\<close>, which does not mention
  the index): that state only occurs once the main loop has ended, the record of the
  decider has been appended, and the index is that of the record before it.
\<close>

theorem current_set_is_last_or_before_tb10_record:
  "reachable st hist d \<Longrightarrow>
   (if tb10_final st
    then d \<and> current_set_index st + 2 = length (sets st)
    else current_set_index st + 1 = length (sets st))"
  by (drule reachable_world_inv)
     (auto simp: world_inv_def in_play_def settled_def wf_state_def tb10_final_def)

theorem current_set_is_last_or_before_tb10_record_witness:
  "reachable tb10_decided_state tb10_decided_history True \<and>
   tb10_final tb10_decided_state \<and>
   current_set_index tb10_decided_state + 2 = length (sets tb10_decided_state)"
  using current_set_is_last_or_before_tb10_record [OF tb10_decided_reachable]
    tb10_decided_reachable
  by (simp add: tb10_decided_facts)

text \<open>
  The example match reaches a state with three set records whose current set index
  is 1.
\<close>

theorem current_set_not_last_counterexample:
  "reachable tb10_decided_state tb10_decided_history True \<and>
   current_set_index tb10_decided_state \<noteq> length (sets tb10_decided_state) - 1"
  using tb10_decided_reachable by (simp add: tb10_decided_facts)

section \<open>Double faults and the return statistics\<close>

lemma nth_update_neutral:
  "(\<And>s. f (g s) = f s) \<Longrightarrow> f (xs[j := g (xs ! j)] ! i) = f (xs ! i)"
  by (cases "j < length xs") (auto simp: nth_list_update list_update_beyond)

lemma keeps_returns_modify:
  assumes "keeps_returns r st a" and "\<And>s. return_stats (g s) = return_stats s"
  shows "keeps_returns r st (modify r' g a)"
  using assms
  by (cases r; cases r') (simp_all add: keeps_returns_def nth_update_neutral)

lemma keeps_returns_fields:
  "keeps_returns r st a \<Longrightarrow> keeps_returns r st (a\<lparr>current_point_serve := t\<rparr>)"
  "keeps_returns r st a \<Longrightarrow> keeps_returns r st (a\<lparr>log_entries := l\<rparr>)"
  by (cases r; simp add: keeps_returns_def)+

lemma keeps_returns_serve_attempt:
  "keeps_returns r st a \<Longrightarrow> keeps_returns r st (add_serve_attempt a server t b)"
  by (simp add: add_serve_attempt_def Let_def keeps_returns_modify return_stats_def)

lemma keeps_returns_double_fault:
  "keeps_returns r st a \<Longrightarrow> keeps_returns r st (add_double_fault a server)"
  by (simp add: add_double_fault_def Let_def keeps_returns_modify return_stats_def)

lemma keeps_returns_ownership:
  "keeps_returns r st a \<Longrightarrow> keeps_returns r st (add_stats_point_ownership w l a)"
  by (simp add: add_stats_point_ownership_def keeps_returns_modify return_stats_def)

lemma keeps_returns_break_point:
  "keeps_returns r st a \<Longrightarrow> keeps_returns r st (maybe_count_break_point a bp won)"
  by (simp add: maybe_count_break_point_def Let_def keeps_returns_modify return_stats_def)

lemma keeps_returns_give_point:
  assumes "keeps_returns r st a"
    and "case r of Set_p1 i \<Rightarrow> i < length (per_set_stats_p1 st)
         | Set_p2 i \<Rightarrow> i < length (per_set_stats_p2 st) | _ \<Rightarrow> True"
  shows "return_stats (deref (give_point a w) r) = return_stats (deref st r)"
proof -
  have k: "keeps_stats a (give_point a w)" by (rule give_point_keeps)
  show ?thesis
    using assms k
    by (cases r) (auto simp: keeps_returns_def keeps_stats_def nth_append)
qed

lemma double_fault_returns:
  assumes "keeps_returns r st a"
    and "case r of Set_p1 i \<Rightarrow> i < length (per_set_stats_p1 st)
         | Set_p2 i \<Rightarrow> i < length (per_set_stats_p2 st) | _ \<Rightarrow> True"
  shows "return_stats (deref (double_fault e sv rt bp a) r) = return_stats (deref st r)"
  unfolding double_fault_def Let_def
  by (rule keeps_returns_give_point [OF _ assms(2)])
     (intro keeps_returns_fields keeps_returns_break_point keeps_returns_ownership
        keeps_returns_double_fault keeps_returns_serve_attempt assms(1))

lemma keeps_returns_enforce: "keeps_returns r st (enforce_tiebreak_server st)"
  by (cases r)
     (simp_all add: keeps_returns_def enforce_tiebreak_server_def compute_tiebreak_server_def Let_def)

lemma set_ref_enforce [simp]: "set_ref (enforce_tiebreak_server st) p = set_ref st p"
  by (simp add: set_ref_def enforce_tiebreak_server_def compute_tiebreak_server_def Let_def)

text \<open>
  Claim C10. A double fault is entered as choice 4 of the serve menu, or as choice 2
  (first serve fault) followed by anything but 1 at the second-serve prompt. Then
  \<^verbatim>\<open>record_point_and_stats\<close> plays the point, and the receiver's five return counters
  are the same after it as before, in the match totals and in the block of the set that
  was current.
\<close>

theorem double_fault_keeps_return_stats:
  assumes df: "inp = 4 # rest \<or> (\<exists>s2. s2 \<noteq> 1 \<and> inp = 2 # s2 # rest)"
    and i1: "current_set_index st < length (per_set_stats_p1 st)"
    and i2: "current_set_index st < length (per_set_stats_p2 st)"
  shows "\<exists>st'. record_point_and_stats inp st hist = Some (PointPlayed, (st', st # hist), rest) \<and>
           (let receiver = (if current_server (enforce_tiebreak_server st) = 0 then 1 else 0)
            in return_stats (deref st' (match_ref receiver))
                 = return_stats (deref st (match_ref receiver)) \<and>
               return_stats (deref st' (set_ref st receiver))
                 = return_stats (deref st (set_ref st receiver)))"
proof -
  define st1 where "st1 = enforce_tiebreak_server st"
  define sv where "sv = current_server st1"
  define rt :: int where "rt = (if sv = 0 then 1 else 0)"
  define bp where "bp = (if \<not> in_set_tiebreak st1 \<and> \<not> in_match_tiebreak10 st1
                             then is_break_point_if_receiver_wins st1 else False)"
  define entry where "entry = PointLogEntry0\<lparr>
                    set_index := current_set_index st1,
                    game_index := games_player1 (sets st1 ! current_set_index st1)
                                  + games_player2 (sets st1 ! current_set_index st1),
                    in_tiebreak := (in_set_tiebreak st1 \<or> in_match_tiebreak10 st1),
                    tiebreak_point_number := tb_points_p1 st1 + tb_points_p2 st1 + 1,
                    point_number_in_game := game_points_p1 st1 + game_points_p2 st1 + 1,
                    server_player := current_server st1\<rparr>"
  have rec: "record_point_and_stats inp st hist = serve_loop entry sv rt bp inp st1 (st # hist)"
    by (simp only: record_point_and_stats_def Let_def push_history_def st1_def sv_def rt_def
          bp_def entry_def)
  have valid: "case r of Set_p1 i \<Rightarrow> i < length (per_set_stats_p1 st)
         | Set_p2 i \<Rightarrow> i < length (per_set_stats_p2 st) | _ \<Rightarrow> True"
    if "r = match_ref rt \<or> r = set_ref st rt" for r
    using that i1 i2 by (auto simp: match_ref_def set_ref_def)
  have k1: "keeps_returns r st st1" for r
    unfolding st1_def by (rule keeps_returns_enforce)
  from df show ?thesis
  proof
    assume "inp = 4 # rest"
    then have "record_point_and_stats inp st hist
        = Some (PointPlayed, (double_fault entry sv rt bp st1, st # hist), rest)"
      unfolding rec by simp
    moreover have "return_stats (deref (double_fault entry sv rt bp st1) r) = return_stats (deref st r)"
      if "r = match_ref rt \<or> r = set_ref st rt" for r
      using k1 valid [OF that] by (rule double_fault_returns)
    ultimately show ?thesis
      unfolding Let_def st1_def [symmetric] sv_def [symmetric] rt_def [symmetric] by simp
  next
    assume "\<exists>s2. s2 \<noteq> 1 \<and> inp = 2 # s2 # rest"
    then obtain s2 where s2: "s2 \<noteq> 1" "inp = 2 # s2 # rest" by blast
    define e1 where "e1 = entry\<lparr>event_chain := event_chain entry @ ''1st fault -> ''\<rparr>"
    define a where "a = add_serve_attempt st1 sv SERVE_FIRST False"
    from s2 have "record_point_and_stats inp st hist
        = Some (PointPlayed, (double_fault e1 sv rt bp a, st # hist), rest)"
      unfolding rec by (simp add: Let_def e1_def a_def)
    moreover have "return_stats (deref (double_fault e1 sv rt bp a) r) = return_stats (deref st r)"
      if "r = match_ref rt \<or> r = set_ref st rt" for r
    proof -
      have "keeps_returns r st a" unfolding a_def using k1 by (rule keeps_returns_serve_attempt)
      then show ?thesis using valid [OF that] by (rule double_fault_returns)
    qed
    ultimately show ?thesis
      unfolding Let_def st1_def [symmetric] sv_def [symmetric] rt_def [symmetric] by simp
  qed
qed

lemma init_example_facts:
  "current_set_index init_example = 0"
  "length (per_set_stats_p1 init_example) = 1" "length (per_set_stats_p2 init_example) = 1"
  "current_server (enforce_tiebreak_server init_example) = 0"
  "return_stats (match_stats_p2 init_example) = (0, 0, 0, 0, 0)"
  "return_stats (per_set_stats_p2 init_example ! 0) = (0, 0, 0, 0, 0)"
  by code_simp+

theorem double_fault_keeps_return_stats_witness:
  "([4] = 4 # [] \<or> (\<exists>s2. s2 \<noteq> 1 \<and> [4 :: int] = 2 # s2 # [])) \<and>
   current_set_index init_example < length (per_set_stats_p1 init_example) \<and>
   current_set_index init_example < length (per_set_stats_p2 init_example) \<and>
   (\<exists>st'. record_point_and_stats [4] init_example [] =
            Some (PointPlayed, (st', [init_example]), []) \<and>
          return_stats (match_stats_p2 st') = (0, 0, 0, 0, 0) \<and>
          return_stats (per_set_stats_p2 st' ! 0) = (0, 0, 0, 0, 0))"
proof -
  have h1: "[4] = 4 # [] \<or> (\<exists>s2. s2 \<noteq> 1 \<and> [4 :: int] = 2 # s2 # [])" by simp
  have h2: "current_set_index init_example < length (per_set_stats_p1 init_example)"
    by (simp add: init_example_facts)
  have h3: "current_set_index init_example < length (per_set_stats_p2 init_example)"
    by (simp add: init_example_facts)
  show ?thesis
    using double_fault_keeps_return_stats [OF h1 h2 h3, of "[]"] h2 h3
    by (simp add: Let_def init_example_facts match_ref_def set_ref_def)
qed

end
